theory Spec2Isabelle
  imports Main
begin

section \<open>JavaScript strings\<close>

text \<open>
  A JavaScript string is a sequence of UTF-16 code units. A code unit is modelled by its
  number; no arithmetic is done on code units, they are only compared and classified.
  \<open>js\<close> turns an ASCII literal into the code units of the same JavaScript literal.
\<close>

type_synonym code_unit = nat
type_synonym jsstring = "code_unit list"

definition js :: "string \<Rightarrow> jsstring" where
  "js s = map of_char s"

text \<open>\<open>s.startsWith(p)\<close> and \<open>s.substring(a, b)\<close> for \<open>a \<le> b\<close>.\<close>

fun startsWith :: "jsstring \<Rightarrow> jsstring \<Rightarrow> bool" where
  "startsWith s [] = True"
| "startsWith [] (p # ps) = False"
| "startsWith (c # cs) (p # ps) = (c = p \<and> startsWith cs ps)"

definition substring :: "jsstring \<Rightarrow> nat \<Rightarrow> nat \<Rightarrow> jsstring" where
  "substring s a b = take (b - a) (drop a s)"

section \<open>The regular expressions of \<open>getRegexp\<close>\<close>

text \<open>
  The class escapes of a pattern without the \<open>u\<close> flag: \<open>\s\<close> is the ECMAScript
  WhiteSpace and LineTerminator code units, \<open>\w\<close> is \<open>[A-Za-z0-9_]\<close>.
\<close>

definition is_space :: "code_unit \<Rightarrow> bool" where
  "is_space c \<longleftrightarrow>
     (9 \<le> c \<and> c \<le> 13) \<or> c = 32 \<or> c = 160 \<or> c = 5760 \<or> (8192 \<le> c \<and> c \<le> 8202) \<or>
     c = 8232 \<or> c = 8233 \<or> c = 8239 \<or> c = 8287 \<or> c = 12288 \<or> c = 65279"

definition is_word :: "code_unit \<Rightarrow> bool" where
  "is_word c \<longleftrightarrow>
     (48 \<le> c \<and> c \<le> 57) \<or> (65 \<le> c \<and> c \<le> 90) \<or> c = 95 \<or> (97 \<le> c \<and> c \<le> 122)"

text \<open>
  The members of a bracket class. In \<open>[\w-\+]\<close> and \<open>[\w-]\<close> the dash follows a class
  escape, so it is no range: the class is the union of \<open>\w\<close>, the dash and (in the first)
  the plus sign.
\<close>

datatype atom = Ch code_unit | EscW | EscS

fun in_atom :: "atom \<Rightarrow> code_unit \<Rightarrow> bool" where
  "in_atom (Ch d) c = (c = d)"
| "in_atom EscW c = is_word c"
| "in_atom EscS c = is_space c"

definition in_class :: "atom list \<Rightarrow> code_unit \<Rightarrow> bool" where
  "in_class as c = list_ex (\<lambda>a. in_atom a c) as"

text \<open>
  The patterns the plugin builds use: the assertions \<open>^\<close> and \<open>$\<close> (no \<open>m\<close> flag), one
  character of a class (a literal character is the class of that character), the greedy
  quantifiers \<open>*\<close>, \<open>+\<close> and \<open>?\<close> on a class, alternation, concatenation and numbered
  capture groups.
\<close>

datatype re =
    Eps
  | Bol
  | Eol
  | One "atom list"
  | Star "atom list"
  | Plus "atom list"
  | Opt "atom list"
  | Alt re re
  | Seq re re
  | Group nat re

text \<open>
  The lengths a greedy \<open>*\<close> may consume at the front of the remaining input, longest
  first: the order in which backtracking tries them.
\<close>

fun star_lens :: "(code_unit \<Rightarrow> bool) \<Rightarrow> jsstring \<Rightarrow> nat list" where
  "star_lens p [] = [0]"
| "star_lens p (c # cs) = (if p c then map Suc (star_lens p cs) @ [0] else [0])"

type_synonym captures = "nat \<rightharpoonup> nat \<times> nat"
type_synonym mstate = "nat \<times> captures"

text \<open>One character of a class: the next index, when the next character is in the class.\<close>

fun one_step :: "(code_unit \<Rightarrow> bool) \<Rightarrow> jsstring \<Rightarrow> mstate \<Rightarrow> mstate list" where
  "one_step p [] s = []"
| "one_step p (c # cs) s = (if p c then [(Suc (fst s), snd s)] else [])"

text \<open>
  Backtracking as a list of successes: \<open>rm t r (i, c)\<close> lists, in the order the
  backtracking matcher tries them, the states (end index, captures) in which \<open>r\<close> can
  match the text \<open>t\<close> from index \<open>i\<close> with captures \<open>c\<close>.
\<close>

fun rm :: "jsstring \<Rightarrow> re \<Rightarrow> mstate \<Rightarrow> mstate list" where
  "rm t Eps s = [s]"
| "rm t Bol s = (if fst s = 0 then [s] else [])"
| "rm t Eol s = (if fst s = length t then [s] else [])"
| "rm t (One as) s = one_step (in_class as) (drop (fst s) t) s"
| "rm t (Star as) s = map (\<lambda>k. (fst s + k, snd s))
     (star_lens (in_class as) (drop (fst s) t))"
| "rm t (Plus as) s = map (\<lambda>k. (fst s + k, snd s))
     (filter (\<lambda>k. 1 \<le> k) (star_lens (in_class as) (drop (fst s) t)))"
| "rm t (Opt as) s = one_step (in_class as) (drop (fst s) t) s @ [s]"
| "rm t (Alt a b) s = rm t a s @ rm t b s"
| "rm t (Seq a b) s = concat (map (rm t b) (rm t a s))"
| "rm t (Group n a) s =
     map (\<lambda>s'. (fst s', (snd s')(n \<mapsto> (fst s, fst s')))) (rm t a s)"

text \<open>
  The result of \<open>text.match(regex)\<close> for a regex without the \<open>g\<close> flag: \<open>index\<close>,
  the whole match \<open>match[0]\<close> and the groups \<open>match[1]\<close>, \<open>match[2]\<close>
  (\<open>None\<close> is \<open>undefined\<close>: the group did not take part).
\<close>

record jsmatch =
  index :: nat
  m0 :: jsstring
  m1 :: "jsstring option"
  m2 :: "jsstring option"

definition capture :: "jsstring \<Rightarrow> captures \<Rightarrow> nat \<Rightarrow> jsstring option" where
  "capture t c n = map_option (\<lambda>(a, b). substring t a b) (c n)"

text \<open>
  The start indices are tried from 0 up to the length of the text; at each, the first
  success of the backtracking matcher is the match.
\<close>

fun exec_from :: "jsstring \<Rightarrow> re \<Rightarrow> nat list \<Rightarrow> jsmatch option" where
  "exec_from t r [] = None"
| "exec_from t r (i # is) =
     (case rm t r (i, Map.empty) of
        [] \<Rightarrow> exec_from t r is
      | s # _ \<Rightarrow> Some \<lparr>index = i, m0 = substring t i (fst s),
                        m1 = capture t (snd s) 1, m2 = capture t (snd s) 2\<rparr>)"

definition js_match :: "jsstring \<Rightarrow> re \<Rightarrow> jsmatch option" where
  "js_match t r = exec_from t r [0 ..< Suc (length t)]"

section \<open>The trigger matcher\<close>

text \<open>
  \<open>getRegexp\<close> splices the trigger strings into the pattern source, unescaped. The model
  takes a trigger as the literal characters it is made of, which is what the pattern means
  when the trigger holds no character of regular expression syntax (\<open>@\<close> and \<open>#\<close>, the
  defaults, hold none). With a syntax character in a trigger the pattern of the source is
  another one (a dot stands for any character), or \<open>new RegExp\<close> throws; the model does
  not say what happens then, and \<open>literal_trigger\<close> is the condition under which it
  speaks for the source.
\<close>

definition lit :: "jsstring \<Rightarrow> re" where
  "lit s = foldr (\<lambda>c r. Seq (One [Ch c]) r) s Eps"

text \<open>
  The syntax characters of a pattern, by code unit: \<open>^ $ \ . * + ? ( ) [ ] { } |\<close>.
\<close>

definition syntax_char :: "code_unit \<Rightarrow> bool" where
  "syntax_char c \<longleftrightarrow> c \<in> set [94, 36, 92, 46, 42, 43, 63, 40, 41, 91, 93, 123, 125, 124]"

definition literal_trigger :: "jsstring \<Rightarrow> bool" where
  "literal_trigger s = list_all (\<lambda>c. \<not> syntax_char c) s"

definition seq :: "re list \<Rightarrow> re" where
  "seq rs = foldr Seq rs Eps"

record regexps =
  mention :: re
  tag :: re

text \<open>
  \<open>(^|\s)\<close> trigger \<open>([\w-\+]*\s?[\w-\+]*)$\<close> with \<open>+\<close> for the first \<open>*\<close> when
  \<open>requireText\<close>, or \<open>(^|\s)\<close> trigger \<open>([\w-\+]*)$\<close> without \<open>allowSpace\<close>; the tag
  pattern is \<open>(^|\s)\<close> trigger \<open>([\w-]+)$\<close>. Code units 45 and 43 are the dash and the
  plus sign.
\<close>

definition getRegexp :: "jsstring \<Rightarrow> jsstring \<Rightarrow> bool \<Rightarrow> bool \<Rightarrow> regexps" where
  "getRegexp mentionTrigger hashtagTrigger allowSpace requireText =
     (let textOperator = (if requireText then Plus else Star);
          mention =
            (if allowSpace
             then seq [Group 1 (Alt Bol (One [EscS])), lit mentionTrigger,
                       Group 2 (seq [textOperator [EscW, Ch 45, Ch 43], Opt [EscS],
                                     Star [EscW, Ch 45, Ch 43]]),
                       Eol]
             else seq [Group 1 (Alt Bol (One [EscS])), lit mentionTrigger,
                       Group 2 (seq [textOperator [EscW, Ch 45, Ch 43]]),
                       Eol]);
          tag = seq [Group 1 (Alt Bol (One [EscS])), lit hashtagTrigger,
                     Group 2 (seq [Plus [EscW, Ch 45]]),
                     Eol]
      in \<lparr>mention = mention, tag = tag\<rparr>)"

text \<open>
  The options of the plugin that the matcher and the state machine read. The hooks of the
  caller are not fields here: what they do is outside the program.
\<close>

record opts =
  mentionTrigger :: jsstring
  hashtagTrigger :: jsstring
  allowSpace :: bool
  requireText :: bool
  delay :: nat

definition defaultOpts :: opts where
  "defaultOpts = \<lparr>mentionTrigger = js ''@'', hashtagTrigger = js ''#'',
     allowSpace = True, requireText = False, delay = 500\<rparr>"

text \<open>
  What \<open>getMatch\<close> reads of the resolved position: \<open>$position.start()\<close> and the text
  \<open>$position.doc.textBetween($position.before(), $position.pos, "\n", "\0")\<close> of the
  paragraph up to the cursor, both computed by the editor.
\<close>

record resolved_pos =
  pos :: nat
  start :: nat
  textBefore :: jsstring

text \<open>The strings \<open>"mention"\<close>, \<open>"tag"\<close> and \<open>""\<close> of the \<open>type\<close> fields.\<close>

datatype stype = Mention | Tag | NoType

record range =
  "from" :: nat
  to :: nat

text \<open>
  The state of the plugin (what \<open>getNewState\<close> creates). Its fields \<open>range\<close> and
  \<open>type\<close> are written \<open>state.range\<close> and \<open>state.type\<close> below, the fields of the
  same names of the result of \<open>getMatch\<close> are written plainly.
\<close>

record state =
  active :: bool
  range :: range
  type :: stype
  "text" :: "jsstring option"

text \<open>\<open>queryText\<close> is \<open>match[2]\<close> as it is: \<open>None\<close> would be \<open>undefined\<close>.\<close>

record match_result =
  range :: range
  queryText :: "jsstring option"
  type :: stype

definition getMatch :: "resolved_pos \<Rightarrow> opts \<Rightarrow> match_result option" where
  "getMatch position opts =
     (let text = textBefore position;
          regex = getRegexp (mentionTrigger opts) (hashtagTrigger opts)
                    (allowSpace opts) (requireText opts);
          mentionMatch = js_match text (mention regex);
          tagMatch = js_match text (tag regex);
          match = (case mentionMatch of Some m \<Rightarrow> Some m | None \<Rightarrow> tagMatch);
          type = (if mentionMatch \<noteq> None then Mention
                  else if tagMatch \<noteq> None then Tag else NoType)
      in case match of
           Some m \<Rightarrow>
             (let index' = (if startsWith (m0 m) (js '' '') then index m + 1 else index m);
                  m0' = (if startsWith (m0 m) (js '' '')
                         then substring (m0 m) 1 (length (m0 m)) else m0 m);
                  from = start position + index';
                  to = from + length m0';
                  queryText = m2 m
              in Some \<lparr>range = \<lparr>from = from, to = to\<rparr>, queryText = queryText,
                         type = type\<rparr>)
         | None \<Rightarrow> None)"

section \<open>Timers and \<open>debounce\<close>\<close>

text \<open>
  The timers of the event loop, with time in milliseconds: \<open>pending\<close> holds a timer as
  (id, time it is due, task). \<open>timeoutId\<close> is the variable of the closure of
  \<open>debounce\<close>, one for the whole module.
\<close>

record 't timers =
  now :: nat
  next_id :: nat
  pending :: "(nat \<times> nat \<times> 't) list"
  timeoutId :: "nat option"

definition setTimeout :: "'t \<Rightarrow> nat \<Rightarrow> 't timers \<Rightarrow> nat \<times> 't timers" where
  "setTimeout func timeout ts =
     (next_id ts,
      ts\<lparr>next_id := Suc (next_id ts),
         pending := pending ts @ [(next_id ts, now ts + timeout, func)]\<rparr>)"

text \<open>\<open>clearTimeout(null)\<close> and \<open>clearTimeout\<close> of a timer that has fired do nothing.\<close>

definition clearTimeout :: "nat option \<Rightarrow> 't timers \<Rightarrow> 't timers" where
  "clearTimeout tid ts =
     (case tid of
        None \<Rightarrow> ts
      | Some i \<Rightarrow> ts\<lparr>pending := filter (\<lambda>p. fst p \<noteq> i) (pending ts)\<rparr>)"

definition debounce :: "'t \<Rightarrow> nat \<Rightarrow> 't timers \<Rightarrow> nat \<times> 't timers" where
  "debounce func timeout ts =
     (let ts1 = clearTimeout (timeoutId ts) ts;
          (tid, ts2) = setTimeout func timeout ts1
      in (tid, ts2\<lparr>timeoutId := Some tid\<rparr>))"

text \<open>
  The clock reaches \<open>t\<close>: the timers due by then fire, the earliest first, and leave
  \<open>pending\<close>. The result lists the tasks run, in the order they ran.
\<close>

definition advance :: "nat \<Rightarrow> 't timers \<Rightarrow> 't list \<times> 't timers" where
  "advance t ts =
     (map (\<lambda>p. snd (snd p)) (sort_key (\<lambda>p. fst (snd p))
        (filter (\<lambda>p. fst (snd p) \<le> t) (pending ts))),
      ts\<lparr>now := max (now ts) t,
         pending := filter (\<lambda>p. \<not> fst (snd p) \<le> t) (pending ts)\<rparr>)"

text \<open>
  A run of calls \<open>debounce(task, timeout)\<close>, each at its time: the clock advances to the
  time of the call, then the call is made. The result lists the tasks run meanwhile.
\<close>

fun debounce_calls :: "nat \<Rightarrow> (nat \<times> 't) list \<Rightarrow> 't timers \<Rightarrow> 't list \<times> 't timers" where
  "debounce_calls timeout [] ts = ([], ts)"
| "debounce_calls timeout (c # cs) ts =
     (let (ran1, ts1) = advance (fst c) ts;
          (tid, ts2) = debounce (snd c) timeout ts1;
          (ran2, ts3) = debounce_calls timeout cs ts2
      in (ran1 @ ran2, ts3))"

text \<open>Consecutive calls are less than \<open>d\<close> apart (and time does not run backwards).\<close>

fun within :: "nat \<Rightarrow> nat list \<Rightarrow> bool" where
  "within d (a # b # ts) = (a \<le> b \<and> b < a + d \<and> within d (b # ts))"
| "within d ts = True"

text \<open>
  The invariant of such a run at the time \<open>t\<close> of a call: the clock has not passed
  \<open>t\<close>, and at most the timer of the call before is pending, known to \<open>debounce\<close> and
  not due yet.
\<close>

definition quiet :: "nat \<Rightarrow> 't timers \<Rightarrow> bool" where
  "quiet t ts \<longleftrightarrow>
     now ts \<le> t \<and>
     (pending ts = [] \<or>
      (\<exists>i due f. pending ts = [(i, due, f)] \<and> timeoutId ts = Some i \<and> t < due))"

section \<open>The plugin\<close>

definition getNewState :: state where
  "getNewState = \<lparr>active = False, state.range = \<lparr>from = 0, to = 0\<rparr>,
     state.type = NoType, text = Some []\<rparr>"

text \<open>What \<open>apply\<close> reads of a transaction: the selection, with its resolved \<open>$from\<close>.\<close>

record selection =
  sel_from :: nat
  sel_to :: nat
  sel_dfrom :: resolved_pos

record transaction =
  tr_selection :: selection

definition state_init :: state where
  "state_init = getNewState"

definition state_apply :: "opts \<Rightarrow> transaction \<Rightarrow> state \<Rightarrow> state" where
  "state_apply opts tr st =
     (let newState = getNewState;
          selection = tr_selection tr
      in if sel_from selection \<noteq> sel_to selection then newState
         else (case getMatch (sel_dfrom selection) opts of
                 Some m \<Rightarrow> newState\<lparr>active := True, state.range := range m,
                             state.type := type m, text := queryText m\<rparr>
               | None \<Rightarrow> newState))"

text \<open>The inline decoration on the active range, or \<open>null\<close>.\<close>

definition decorations :: "state \<Rightarrow> range option" where
  "decorations st = (if \<not> active st then None else Some (state.range st))"

text \<open>
  The hooks of the caller are outside the program: each call of one is recorded, with its
  arguments. \<open>'i\<close> is the type of the suggestion items, which the plugin only passes on.
\<close>

datatype 'i hook_call =
    ShowDropdownEl 'i
  | HideDropdownEl
  | GetSuggestions stype "jsstring option"
  | GoNext
  | GoPrev

type_synonym attrs = "(jsstring \<times> jsstring) list"

text \<open>The transaction \<open>select\<close> dispatches: \<open>replaceWith(from, to, node)\<close>.\<close>

record replace_tr =
  rep_from :: nat
  rep_to :: nat
  node_type :: stype
  node_attrs :: attrs

text \<open>
  Everything the plugin reads and writes. \<open>pstate\<close> is the plugin's field of the editor
  state, which \<open>getState(view.state)\<close> reads and only a transaction replaces.
  \<open>this_state\<close> is the property \<open>state\<close> of the plugin object (\<open>None\<close> while it has not
  been assigned). A timer holds the \<open>state\<close> its task closed over; \<open>fetches\<close> are the
  calls of \<open>getSuggestions\<close> whose callback has not been called yet, each with the
  \<open>state\<close> the callback closed over.
\<close>

record 'i world =
  pstate :: state
  this_state :: "state option"
  showListTimeoutId :: "nat option"
  tm :: "state timers"
  fetches :: "state list"
  el_display :: jsstring
  elAddedToBody :: bool
  calls :: "'i hook_call list"
  dispatched :: "replace_tr list"

definition init_world :: "'i world" where
  "init_world = \<lparr>pstate = state_init, this_state = None, showListTimeoutId = None,
     tm = \<lparr>now = 0, next_id = 1, pending = [], timeoutId = None\<rparr>, fetches = [],
     el_display = [], elAddedToBody = False, calls = [], dispatched = []\<rparr>"

datatype error = TypeError

text \<open>
  \<open>showList\<close> looks up the element of the decoration in the paragraph of the cursor and
  reads its rectangle. The element is there when \<open>decorations\<close> gives a decoration for
  the current state; without it \<open>textDOM\<close> is \<open>null\<close> and reading the rectangle throws.
  The coordinates written to the style are layout and are left out.
\<close>

definition showList :: "'i \<Rightarrow> 'i world \<Rightarrow> error + 'i world" where
  "showList suggestionItems w =
     (case decorations (pstate w) of
        None \<Rightarrow> Inl TypeError
      | Some textDOM \<Rightarrow>
          Inr (w\<lparr>elAddedToBody := True, el_display := js ''block'',
                 calls := calls w @ [ShowDropdownEl suggestionItems]\<rparr>))"

definition hideList :: "'i world \<Rightarrow> 'i world" where
  "hideList w = w\<lparr>el_display := js ''none'', calls := calls w @ [HideDropdownEl]\<rparr>"

text \<open>\<open>attrs\<close> is what \<open>opts.getCurItemAttrsForSelect(el, opts)\<close> returns.\<close>

definition select :: "attrs option \<Rightarrow> state \<Rightarrow> 'i world \<Rightarrow> 'i world" where
  "select attrs st w =
     (case attrs of
        Some a \<Rightarrow>
          w\<lparr>dispatched := dispatched w @
              [\<lparr>rep_from = from (state.range st), rep_to = to (state.range st),
                node_type = state.type st, node_attrs = a\<rparr>]\<rparr>
      | None \<Rightarrow> w)"

text \<open>
  \<open>handleKeyDown\<close> returns whether it handled the key. The second argument is what
  \<open>getCurItemAttrsForSelect\<close> returns if it is called. The state it reads is
  \<open>this.getState(view.state)\<close>, which is \<open>pstate\<close>; the Escape branch assigns
  \<open>this.state\<close>, which is \<open>this_state\<close>.
\<close>

definition handleKeyDown :: "nat \<Rightarrow> attrs option \<Rightarrow> 'i world \<Rightarrow> bool \<times> 'i world" where
  "handleKeyDown keyCode attrs w =
     (let st = pstate w in
      if \<not> active st then (False, w)
      else let enter = (keyCode = 13); down = (keyCode = 40); up = (keyCode = 38);
               esc = (keyCode = 27)
           in if down then (True, w\<lparr>calls := calls w @ [GoNext]\<rparr>)
              else if up then (True, w\<lparr>calls := calls w @ [GoPrev]\<rparr>)
              else if enter then (True, select attrs st w)
              else if esc then
                (True, (hideList (w\<lparr>tm := clearTimeout (showListTimeoutId w) (tm w)\<rparr>))
                         \<lparr>this_state := Some getNewState\<rparr>)
              else (False, w))"

text \<open>\<open>!state.text\<close>: \<open>undefined\<close> and the empty string are falsy.\<close>

definition falsy :: "jsstring option \<Rightarrow> bool" where
  "falsy s = (s = None \<or> s = Some [])"

definition view_update :: "opts \<Rightarrow> 'i world \<Rightarrow> 'i world" where
  "view_update opts w =
     (let st = pstate w in
      if \<not> active st \<or> (requireText opts \<and> falsy (text st))
      then (let w1 = hideList w in w1\<lparr>tm := clearTimeout (showListTimeoutId w1) (tm w1)\<rparr>)
      else (let (tid, tm') = debounce st (delay opts) (tm w)
            in w\<lparr>tm := tm', showListTimeoutId := Some tid\<rparr>))"

text \<open>The task of a timer: \<open>opts.getSuggestions(state.type, state.text, callWhenDone)\<close>.\<close>

definition run_task :: "state \<Rightarrow> 'i world \<Rightarrow> 'i world" where
  "run_task st w =
     w\<lparr>calls := calls w @ [GetSuggestions (state.type st) (text st)],
       fetches := fetches w @ [st]\<rparr>"

text \<open>
  \<open>callWhenDone(suggestionItems)\<close> of the \<open>k\<close>-th outstanding fetch. An exception of
  \<open>showList\<close> goes to the caller of the callback and leaves the plugin as it was.
\<close>

definition callWhenDone :: "nat \<Rightarrow> 'i \<Rightarrow> 'i world \<Rightarrow> 'i world" where
  "callWhenDone k suggestionItems w =
     (if k < length (fetches w)
      then (let w1 = w\<lparr>fetches := take k (fetches w) @ drop (Suc k) (fetches w)\<rparr>
            in case showList suggestionItems w1 of Inr w2 \<Rightarrow> w2 | Inl e \<Rightarrow> w1)
      else w)"

text \<open>
  The events of the editor: a transaction is applied and the view updated, a key goes
  down, the clock reaches a time, a fetch completes.
\<close>

datatype 'i event =
    Transaction transaction
  | KeyDown nat "attrs option"
  | Tick nat
  | Done nat 'i

fun step :: "opts \<Rightarrow> 'i world \<Rightarrow> 'i event \<Rightarrow> 'i world" where
  "step opts w (Transaction tr) =
     view_update opts (w\<lparr>pstate := state_apply opts tr (pstate w)\<rparr>)"
| "step opts w (KeyDown keyCode attrs) = snd (handleKeyDown keyCode attrs w)"
| "step opts w (Tick t) =
     (let (ran, tm') = advance t (tm w) in foldl (\<lambda>w st. run_task st w) (w\<lparr>tm := tm'\<rparr>) ran)"
| "step opts w (Done k suggestionItems) = callWhenDone k suggestionItems w"

definition run :: "opts \<Rightarrow> 'i event list \<Rightarrow> 'i world \<Rightarrow> 'i world" where
  "run opts es w = foldl (step opts) w es"

section \<open>The node specs\<close>

text \<open>
  The output of \<open>toDOM\<close>: the tag, the attribute object (its properties in order) and the
  text child. The editor renders it into an element with these attributes set, from which
  \<open>getAttribute\<close> reads (\<open>None\<close> is \<open>null\<close>: the attribute is not there).
\<close>

record dom_spec =
  spec_tag :: jsstring
  spec_attrs :: "(jsstring \<times> jsstring) list"
  spec_text :: jsstring

record element =
  tagName :: jsstring
  attributes :: "jsstring \<rightharpoonup> jsstring"
  textContent :: jsstring

definition render :: "dom_spec \<Rightarrow> element" where
  "render d = \<lparr>tagName = spec_tag d,
     attributes = foldl (\<lambda>m p. m(fst p \<mapsto> snd p)) Map.empty (spec_attrs d),
     textContent = spec_text d\<rparr>"

definition getAttribute :: "element \<Rightarrow> jsstring \<Rightarrow> jsstring option" where
  "getAttribute domEl name = attributes domEl name"

record 'v mention_attrs =
  did :: 'v
  handle :: 'v

text \<open>What \<open>toDOM\<close> reads of a node: its attributes.\<close>

record 'a pm_node =
  attrs :: 'a

definition mentionNode_toDOM :: "jsstring mention_attrs pm_node \<Rightarrow> dom_spec" where
  "mentionNode_toDOM node =
     \<lparr>spec_tag = js ''span'',
      spec_attrs = [(js ''data-mention-did'', did (attrs node)),
                    (js ''data-mention-handle'', handle (attrs node)),
                    (js ''class'', js ''prosemirror-mention-node'')],
      spec_text = js ''@'' @ handle (attrs node)\<rparr>"

text \<open>The selector \<open>span[data-mention-did][data-mention-handle]\<close> of the parse rule.\<close>

definition mentionNode_tag :: "element \<Rightarrow> bool" where
  "mentionNode_tag domEl \<longleftrightarrow>
     tagName domEl = js ''span'' \<and> getAttribute domEl (js ''data-mention-did'') \<noteq> None \<and>
     getAttribute domEl (js ''data-mention-handle'') \<noteq> None"

definition mentionNode_getAttrs :: "element \<Rightarrow> jsstring option mention_attrs" where
  "mentionNode_getAttrs domEl =
     (let did = getAttribute domEl (js ''data-mention-did'');
          handle = getAttribute domEl (js ''data-mention-handle'')
      in \<lparr>did = did, handle = handle\<rparr>)"

record 'v tag_attrs =
  tag :: 'v

definition tagNode_toDOM :: "jsstring tag_attrs pm_node \<Rightarrow> dom_spec" where
  "tagNode_toDOM node =
     \<lparr>spec_tag = js ''span'',
      spec_attrs = [(js ''data-tag'', tag (attrs node)),
                    (js ''class'', js ''prosemirror-tag-node'')],
      spec_text = js ''#'' @ tag (attrs node)\<rparr>"

text \<open>The selector \<open>span[data-tag]\<close> of the parse rule.\<close>

definition tagNode_tag :: "element \<Rightarrow> bool" where
  "tagNode_tag domEl \<longleftrightarrow> tagName domEl = js ''span'' \<and> getAttribute domEl (js ''data-tag'') \<noteq> None"

definition tagNode_getAttrs :: "element \<Rightarrow> jsstring option tag_attrs" where
  "tagNode_getAttrs domEl = (let tag = getAttribute domEl (js ''data-tag'') in \<lparr>tag = tag\<rparr>)"

section \<open>What the patterns accept\<close>

text \<open>
  A pattern is plain when it has no assertion and no group; \<open>lang r x\<close> says that the plain
  pattern \<open>r\<close> matches the whole of \<open>x\<close> (an assertion is given the empty string, a
  group the strings of its body).
\<close>

fun plain :: "re \<Rightarrow> bool" where
  "plain Eps = True"
| "plain Bol = False"
| "plain Eol = False"
| "plain (One as) = True"
| "plain (Star as) = True"
| "plain (Plus as) = True"
| "plain (Opt as) = True"
| "plain (Alt a b) = (plain a \<and> plain b)"
| "plain (Seq a b) = (plain a \<and> plain b)"
| "plain (Group n a) = False"

fun lang :: "re \<Rightarrow> jsstring \<Rightarrow> bool" where
  "lang Eps x = (x = [])"
| "lang Bol x = (x = [])"
| "lang Eol x = (x = [])"
| "lang (One as) x = (\<exists>c. x = [c] \<and> in_class as c)"
| "lang (Star as) x = list_all (in_class as) x"
| "lang (Plus as) x = (x \<noteq> [] \<and> list_all (in_class as) x)"
| "lang (Opt as) x = (x = [] \<or> (\<exists>c. x = [c] \<and> in_class as c))"
| "lang (Alt a b) x = (lang a x \<or> lang b x)"
| "lang (Seq a b) x = (\<exists>u v. x = u @ v \<and> lang a u \<and> lang b v)"
| "lang (Group n a) x = lang a x"

text \<open>
  The shape of a text on which a pattern of \<open>getRegexp\<close> matches, in the words of the
  description of the matcher. \<open>preceded pre\<close>: the trigger stands at the start of the line
  or after a whitespace character. \<open>mention_query\<close>: the text after the trigger is word
  characters, dashes and plus signs (at least one with \<open>requireText\<close>), then, with
  \<open>allowSpace\<close>, at most one whitespace character, then word characters, dashes and plus
  signs. \<open>tag_query\<close>: one or more word characters and dashes.
\<close>

definition preceded :: "jsstring \<Rightarrow> bool" where
  "preceded pre \<longleftrightarrow> pre = [] \<or> is_space (last pre)"

definition mention_query :: "opts \<Rightarrow> jsstring \<Rightarrow> bool" where
  "mention_query opts q \<longleftrightarrow>
     (\<exists>a w b. q = a @ w @ b \<and>
        list_all (in_class [EscW, Ch 45, Ch 43]) a \<and> (requireText opts \<longrightarrow> a \<noteq> []) \<and>
        (w = [] \<or> allowSpace opts \<and> (\<exists>sp. w = [sp] \<and> is_space sp)) \<and>
        list_all (in_class [EscW, Ch 45, Ch 43]) b)"

definition tag_query :: "jsstring \<Rightarrow> bool" where
  "tag_query q \<longleftrightarrow> q \<noteq> [] \<and> list_all (in_class [EscW, Ch 45]) q"

fun trigger_of :: "opts \<Rightarrow> stype \<Rightarrow> jsstring" where
  "trigger_of opts Mention = mentionTrigger opts"
| "trigger_of opts Tag = hashtagTrigger opts"
| "trigger_of opts NoType = []"

fun query_of :: "opts \<Rightarrow> stype \<Rightarrow> jsstring \<Rightarrow> bool" where
  "query_of opts Mention q = mention_query opts q"
| "query_of opts Tag q = tag_query q"
| "query_of opts NoType q = False"

definition activates :: "opts \<Rightarrow> stype \<Rightarrow> jsstring \<Rightarrow> bool" where
  "activates opts ty t \<longleftrightarrow>
     (\<exists>pre q. t = pre @ trigger_of opts ty @ q \<and> preceded pre \<and> query_of opts ty q)"

section \<open>Example inputs\<close>

text \<open>
  The transaction after which the cursor stands at the end of the text \<open>s\<close> of a
  paragraph that starts at offset 0.
\<close>

definition typed :: "string \<Rightarrow> transaction" where
  "typed s = \<lparr>tr_selection = \<lparr>sel_from = length s, sel_to = length s,
     sel_dfrom = \<lparr>pos = length s, start = 0, textBefore = js s\<rparr>\<rparr>\<rparr>"

section \<open>Evaluation\<close>

text \<open>The definitions the simplifier unfolds to run the matcher on a concrete text.\<close>

lemmas matcher_defs = getRegexp_def seq_def lit_def js_def js_match_def upt_rec in_class_def
  is_word_def is_space_def substring_def capture_def

lemma defaultOpts_sel: "requireText defaultOpts = False" "delay defaultOpts = 500"
  by (simp_all add: defaultOpts_def)

lemma apply_al:
  "state_apply defaultOpts (typed ''@al'') st =
     \<lparr>active = True, state.range = \<lparr>from = 0, to = 3\<rparr>, state.type = Mention,
      text = Some (js ''al'')\<rparr>"
  by (simp add: typed_def state_apply_def getMatch_def defaultOpts_def getNewState_def
      matcher_defs)

lemma apply_ali:
  "state_apply defaultOpts (typed ''@ali'') st =
     \<lparr>active = True, state.range = \<lparr>from = 0, to = 4\<rparr>, state.type = Mention,
      text = Some (js ''ali'')\<rparr>"
  by (simp add: typed_def state_apply_def getMatch_def defaultOpts_def getNewState_def
      matcher_defs)

lemmas plugin_defs = run_def view_update_def init_world_def state_init_def falsy_def
  debounce_def clearTimeout_def setTimeout_def defaultOpts_sel Let_def advance_def run_task_def
  callWhenDone_def showList_def decorations_def

text \<open>
  The scenarios of the description of the matcher: \<open>#work\<close> (the line \<open>#work in progress\<close>
  up to the cursor at 5) is a tag from 0 to 5, and \<open>a@b\<close> gives no match.
\<close>

lemma getMatch_scenarios:
  "getMatch \<lparr>pos = 5, start = 0, textBefore = js ''#work''\<rparr> defaultOpts =
     Some \<lparr>range = \<lparr>from = 0, to = 5\<rparr>, queryText = Some (js ''work''), type = Tag\<rparr>"
  "getMatch \<lparr>pos = 3, start = 0, textBefore = js ''a@b''\<rparr> defaultOpts = None"
  by (simp_all add: getMatch_def defaultOpts_def matcher_defs)

section \<open>The backtracking matcher and the strings a pattern matches\<close>

text \<open>
  The successes of the matcher on a plain pattern from a state are the states reached by
  consuming a string of the pattern at the index of the state, with the captures unchanged.
\<close>

lemma star_lens_mem:
  "k \<in> set (star_lens p xs) \<longleftrightarrow> k \<le> length xs \<and> list_all p (take k xs)"
proof (induction xs arbitrary: k)
  case Nil
  then show ?case by simp
next
  case (Cons c cs)
  show ?case
  proof (cases k)
    case 0
    then show ?thesis by simp
  next
    case (Suc m)
    with Cons show ?thesis by auto
  qed
qed

lemma drop_step: "drop i t = y # ys \<Longrightarrow> drop (Suc i) t = ys"
  by (metis drop_Suc list.sel(3) tl_drop)

lemma drop_split: "drop i t = u @ r \<Longrightarrow> drop (i + length u) t = r"
  by (metis add.commute append_eq_conv_conj drop_drop)

lemma one_step_mem:
  "s' \<in> set (one_step p xs s) \<longleftrightarrow> (\<exists>c cs. xs = c # cs \<and> p c \<and> s' = (Suc (fst s), snd s))"
  by (cases xs) auto

lemma rm_plain:
  "plain r \<Longrightarrow>
     s' \<in> set (rm t r s) \<longleftrightarrow>
       snd s' = snd s \<and>
       (\<exists>x. lang r x \<and> drop (fst s) t = x @ drop (fst s') t \<and> fst s' = fst s + length x)"
proof (induction r arbitrary: s s')
  case Eps
  then show ?case by (cases s; cases s') auto
next
  case (One as)
  show ?case
  proof
    assume "s' \<in> set (rm t (One as) s)"
    then obtain c cs where h: "drop (fst s) t = c # cs" "in_class as c" "s' = (Suc (fst s), snd s)"
      by (auto simp: one_step_mem)
    from h(1) have "drop (Suc (fst s)) t = cs" by (rule drop_step)
    with h show "snd s' = snd s \<and>
       (\<exists>x. lang (One as) x \<and> drop (fst s) t = x @ drop (fst s') t \<and> fst s' = fst s + length x)"
      by auto
  next
    assume "snd s' = snd s \<and>
       (\<exists>x. lang (One as) x \<and> drop (fst s) t = x @ drop (fst s') t \<and> fst s' = fst s + length x)"
    then show "s' \<in> set (rm t (One as) s)"
      by (cases s') (auto simp: one_step_mem)
  qed
next
  case (Star as)
  show ?case
  proof
    assume "s' \<in> set (rm t (Star as) s)"
    then obtain k where k: "k \<le> length (drop (fst s) t)"
        "list_all (in_class as) (take k (drop (fst s) t))" "s' = (fst s + k, snd s)"
      by (auto simp: star_lens_mem)
    have "drop (fst s) t = take k (drop (fst s) t) @ drop (fst s + k) t"
      by (metis add.commute append_take_drop_id drop_drop)
    with k show "snd s' = snd s \<and>
       (\<exists>x. lang (Star as) x \<and> drop (fst s) t = x @ drop (fst s') t \<and> fst s' = fst s + length x)"
      by (intro conjI exI[of _ "take k (drop (fst s) t)"]) auto
  next
    assume "snd s' = snd s \<and>
       (\<exists>x. lang (Star as) x \<and> drop (fst s) t = x @ drop (fst s') t \<and> fst s' = fst s + length x)"
    then obtain x where x: "snd s' = snd s" "list_all (in_class as) x"
        "drop (fst s) t = x @ drop (fst s') t" "fst s' = fst s + length x"
      by auto
    from x(3) have "length x \<le> length (drop (fst s) t)" "take (length x) (drop (fst s) t) = x"
      by (metis length_append le_add1, metis append_eq_conv_conj)
    with x have "length x \<in> set (star_lens (in_class as) (drop (fst s) t))"
      by (simp add: star_lens_mem)
    with x show "s' \<in> set (rm t (Star as) s)"
      by (cases s') (auto simp: image_iff)
  qed
next
  case (Plus as)
  show ?case
  proof
    assume "s' \<in> set (rm t (Plus as) s)"
    then obtain k where k: "k \<le> length (drop (fst s) t)" "1 \<le> k"
        "list_all (in_class as) (take k (drop (fst s) t))" "s' = (fst s + k, snd s)"
      by (auto simp: star_lens_mem)
    have "drop (fst s) t = take k (drop (fst s) t) @ drop (fst s + k) t"
      by (metis add.commute append_take_drop_id drop_drop)
    moreover from k have "take k (drop (fst s) t) \<noteq> []" by auto
    ultimately show "snd s' = snd s \<and>
       (\<exists>x. lang (Plus as) x \<and> drop (fst s) t = x @ drop (fst s') t \<and> fst s' = fst s + length x)"
      using k by (intro conjI exI[of _ "take k (drop (fst s) t)"]) auto
  next
    assume "snd s' = snd s \<and>
       (\<exists>x. lang (Plus as) x \<and> drop (fst s) t = x @ drop (fst s') t \<and> fst s' = fst s + length x)"
    then obtain x where x: "snd s' = snd s" "list_all (in_class as) x" "x \<noteq> []"
        "drop (fst s) t = x @ drop (fst s') t" "fst s' = fst s + length x"
      by auto
    from x(4) have "length x \<le> length (drop (fst s) t)" "take (length x) (drop (fst s) t) = x"
      by (metis length_append le_add1, metis append_eq_conv_conj)
    with x have "length x \<in> set (star_lens (in_class as) (drop (fst s) t))"
      by (simp add: star_lens_mem)
    moreover from x have "1 \<le> length x" by (cases x) auto
    ultimately show "s' \<in> set (rm t (Plus as) s)"
      using x by (cases s') (auto simp: image_iff)
  qed
next
  case (Opt as)
  show ?case
  proof
    assume "s' \<in> set (rm t (Opt as) s)"
    then consider "s' = s" | c cs where "drop (fst s) t = c # cs" "in_class as c" "s' = (Suc (fst s), snd s)"
      by (auto simp: one_step_mem)
    then show "snd s' = snd s \<and>
       (\<exists>x. lang (Opt as) x \<and> drop (fst s) t = x @ drop (fst s') t \<and> fst s' = fst s + length x)"
    proof cases
      case 1
      then show ?thesis by auto
    next
      case 2
      from 2(1) have "drop (Suc (fst s)) t = cs" by (rule drop_step)
      with 2 show ?thesis by auto
    qed
  next
    assume "snd s' = snd s \<and>
       (\<exists>x. lang (Opt as) x \<and> drop (fst s) t = x @ drop (fst s') t \<and> fst s' = fst s + length x)"
    then show "s' \<in> set (rm t (Opt as) s)"
      by (cases s'; cases s) (auto simp: one_step_mem)
  qed
next
  case (Alt a b)
  then show ?case by auto
next
  case (Seq a b)
  from Seq.prems have pa: "plain a" and pb: "plain b" by simp_all
  show ?case
  proof
    assume "s' \<in> set (rm t (Seq a b) s)"
    then obtain m where m: "m \<in> set (rm t a s)" "s' \<in> set (rm t b m)" by auto
    from m(1) Seq.IH(1)[OF pa] obtain u where u: "snd m = snd s" "lang a u"
        "drop (fst s) t = u @ drop (fst m) t" "fst m = fst s + length u" by blast
    from m(2) Seq.IH(2)[OF pb] obtain v where v: "snd s' = snd m" "lang b v"
        "drop (fst m) t = v @ drop (fst s') t" "fst s' = fst m + length v" by blast
    from u v show "snd s' = snd s \<and>
       (\<exists>x. lang (Seq a b) x \<and> drop (fst s) t = x @ drop (fst s') t \<and> fst s' = fst s + length x)"
      by (intro conjI exI[of _ "u @ v"]) auto
  next
    assume "snd s' = snd s \<and>
       (\<exists>x. lang (Seq a b) x \<and> drop (fst s) t = x @ drop (fst s') t \<and> fst s' = fst s + length x)"
    then obtain u v where uv: "snd s' = snd s" "lang a u" "lang b v"
        "drop (fst s) t = (u @ v) @ drop (fst s') t" "fst s' = fst s + length (u @ v)"
      by auto
    let ?m = "(fst s + length u, snd s)"
    from uv(4) have d: "drop (fst s + length u) t = v @ drop (fst s') t"
      by (simp add: drop_split)
    with uv have "?m \<in> set (rm t a s)"
      using Seq.IH(1)[OF pa, of ?m s] by auto
    moreover from uv d have "s' \<in> set (rm t b ?m)"
      using Seq.IH(2)[OF pb, of s' ?m] by auto
    ultimately show "s' \<in> set (rm t (Seq a b) s)" by auto
  qed
qed simp_all

text \<open>
  The successes of a pattern of \<open>getRegexp\<close> from a start index: the text from the index
  on is the anchor (nothing, at index 0, or one whitespace character), the trigger and a
  string of the body of group 2, which reaches the end of the text.
\<close>

lemma plain_lit: "plain (lit trig)"
  by (induction trig) (simp_all add: lit_def)

lemma lang_lit: "lang (lit trig) x \<longleftrightarrow> x = trig"
proof (induction trig arbitrary: x)
  case Nil
  then show ?case by (simp add: lit_def)
next
  case (Cons c cs)
  have "lit (c # cs) = Seq (One [Ch c]) (lit cs)" by (simp add: lit_def)
  with Cons show ?case by (auto simp: in_class_def)
qed

lemma rm_lit:
  "s' \<in> set (rm t (lit trig) s) \<longleftrightarrow>
     snd s' = snd s \<and> drop (fst s) t = trig @ drop (fst s') t \<and> fst s' = fst s + length trig"
  using rm_plain [OF plain_lit, of s' t trig s] by (auto simp: lang_lit)

lemma rm_anchor:
  "s' \<in> set (rm t (Group 1 (Alt Bol (One [EscS]))) (i, c)) \<longleftrightarrow>
     (\<exists>g. (i = 0 \<and> g = [] \<or> (\<exists>sp. g = [sp] \<and> is_space sp)) \<and>
          drop i t = g @ drop (i + length g) t \<and>
          s' = (i + length g, c(1 \<mapsto> (i, i + length g))))"
proof
  assume "s' \<in> set (rm t (Group 1 (Alt Bol (One [EscS]))) (i, c))"
  then consider "i = 0" "s' = (i, c(1 \<mapsto> (i, i)))"
    | sp cs where "drop i t = sp # cs" "is_space sp" "s' = (Suc i, c(1 \<mapsto> (i, Suc i)))"
    by (auto simp: one_step_mem in_class_def split: if_splits)
  then show "\<exists>g. (i = 0 \<and> g = [] \<or> (\<exists>sp. g = [sp] \<and> is_space sp)) \<and>
          drop i t = g @ drop (i + length g) t \<and>
          s' = (i + length g, c(1 \<mapsto> (i, i + length g)))"
  proof cases
    case 1
    then show ?thesis by (intro exI[of _ "[]"]) simp
  next
    case 2
    from 2(1) have "drop (Suc i) t = cs" by (rule drop_step)
    with 2 show ?thesis by (intro exI[of _ "[sp]"]) simp
  qed
next
  assume "\<exists>g. (i = 0 \<and> g = [] \<or> (\<exists>sp. g = [sp] \<and> is_space sp)) \<and>
          drop i t = g @ drop (i + length g) t \<and>
          s' = (i + length g, c(1 \<mapsto> (i, i + length g)))"
  then show "s' \<in> set (rm t (Group 1 (Alt Bol (One [EscS]))) (i, c))"
    by (auto simp: one_step_mem in_class_def image_iff)
qed

lemma rm_query:
  assumes "plain body"
  shows "s' \<in> set (rm t (Seq (Group 2 body) (Seq Eol Eps)) s) \<longleftrightarrow>
     lang body (drop (fst s) t) \<and> fst s \<le> length t \<and>
     s' = (length t, (snd s)(2 \<mapsto> (fst s, length t)))"
proof
  assume "s' \<in> set (rm t (Seq (Group 2 body) (Seq Eol Eps)) s)"
  then obtain m where m: "m \<in> set (rm t body s)" "fst m = length t"
      "s' = (fst m, (snd m)(2 \<mapsto> (fst s, fst m)))"
    by (auto split: if_splits)
  from m(1) rm_plain [OF assms] obtain x where x: "snd m = snd s" "lang body x"
      "drop (fst s) t = x @ drop (fst m) t" "fst m = fst s + length x" by blast
  with m show "lang body (drop (fst s) t) \<and> fst s \<le> length t \<and>
     s' = (length t, (snd s)(2 \<mapsto> (fst s, length t)))"
    by auto
next
  assume a: "lang body (drop (fst s) t) \<and> fst s \<le> length t \<and>
     s' = (length t, (snd s)(2 \<mapsto> (fst s, length t)))"
  let ?m = "(length t, snd s)"
  from a have "?m \<in> set (rm t body s)"
    using rm_plain [OF assms, of ?m t s] by auto
  with a show "s' \<in> set (rm t (Seq (Group 2 body) (Seq Eol Eps)) s)"
    by (auto simp: image_iff intro!: bexI[of _ ?m])
qed

lemma rm_Seq_mem: "s' \<in> set (rm t (Seq a b) s) \<longleftrightarrow> (\<exists>m \<in> set (rm t a s). s' \<in> set (rm t b m))"
  by auto

lemma rm_trigger_pattern:
  assumes "plain body"
  shows "s' \<in> set (rm t (seq [Group 1 (Alt Bol (One [EscS])), lit trig, Group 2 body, Eol])
                    (i, Map.empty)) \<longleftrightarrow>
     (\<exists>g q. (i = 0 \<and> g = [] \<or> (\<exists>sp. g = [sp] \<and> is_space sp)) \<and>
            drop i t = g @ trig @ q \<and> lang body q \<and>
            s' = (length t, [1 \<mapsto> (i, i + length g),
                            2 \<mapsto> (i + length g + length trig, length t)]))"
proof -
  have e: "seq [Group 1 (Alt Bol (One [EscS])), lit trig, Group 2 body, Eol] =
      Seq (Group 1 (Alt Bol (One [EscS]))) (Seq (lit trig) (Seq (Group 2 body) (Seq Eol Eps)))"
    by (simp add: seq_def)
  show ?thesis
  proof
    assume "s' \<in> set (rm t (seq [Group 1 (Alt Bol (One [EscS])), lit trig, Group 2 body, Eol])
                    (i, Map.empty))"
    then obtain s1 where s1: "s1 \<in> set (rm t (Group 1 (Alt Bol (One [EscS]))) (i, Map.empty))"
        "s' \<in> set (rm t (Seq (lit trig) (Seq (Group 2 body) (Seq Eol Eps))) s1)"
      unfolding e by (subst (asm) rm_Seq_mem) blast
    from s1(2) obtain s2 where s2: "s2 \<in> set (rm t (lit trig) s1)"
        "s' \<in> set (rm t (Seq (Group 2 body) (Seq Eol Eps)) s2)"
      by (subst (asm) rm_Seq_mem) blast
    note s = s1(1) s2
    from s(1) obtain g where g: "i = 0 \<and> g = [] \<or> (\<exists>sp. g = [sp] \<and> is_space sp)"
        "drop i t = g @ drop (i + length g) t"
        "s1 = (i + length g, [1 \<mapsto> (i, i + length g)])"
      unfolding rm_anchor by blast
    from s(2) have l: "snd s2 = snd s1" "drop (fst s1) t = trig @ drop (fst s2) t"
        "fst s2 = fst s1 + length trig"
      unfolding rm_lit by auto
    from s(3) have q: "lang body (drop (fst s2) t)" "fst s2 \<le> length t"
        "s' = (length t, (snd s2)(2 \<mapsto> (fst s2, length t)))"
      unfolding rm_query [OF assms] by auto
    from g l q show "\<exists>g q. (i = 0 \<and> g = [] \<or> (\<exists>sp. g = [sp] \<and> is_space sp)) \<and>
            drop i t = g @ trig @ q \<and> lang body q \<and>
            s' = (length t, [1 \<mapsto> (i, i + length g),
                            2 \<mapsto> (i + length g + length trig, length t)])"
      by (intro exI[of _ g] exI[of _ "drop (fst s2) t"]) auto
  next
    assume "\<exists>g q. (i = 0 \<and> g = [] \<or> (\<exists>sp. g = [sp] \<and> is_space sp)) \<and>
            drop i t = g @ trig @ q \<and> lang body q \<and>
            s' = (length t, [1 \<mapsto> (i, i + length g),
                            2 \<mapsto> (i + length g + length trig, length t)])"
    then obtain g q where h: "i = 0 \<and> g = [] \<or> (\<exists>sp. g = [sp] \<and> is_space sp)"
        "drop i t = g @ trig @ q" "lang body q"
        "s' = (length t, [1 \<mapsto> (i, i + length g),
                          2 \<mapsto> (i + length g + length trig, length t)])"
      by blast
    let ?s1 = "(i + length g, [1 \<mapsto> (i, i + length g)])"
    let ?s2 = "(i + length g + length trig, [1 \<mapsto> (i, i + length g)])"
    from h(2) have d1: "drop (i + length g) t = trig @ q" by (rule drop_split)
    from d1 have d2: "drop (i + length g + length trig) t = q" by (rule drop_split)
    have len: "i + length g + length trig \<le> length t"
    proof -
      have "length (drop i t) = length g + length trig + length q" using h(2) by simp
      with h(1) show ?thesis by auto
    qed
    from h(1,2) d1 have "?s1 \<in> set (rm t (Group 1 (Alt Bol (One [EscS]))) (i, Map.empty))"
      unfolding rm_anchor by (intro exI[of _ g]) simp
    moreover from d1 d2 have "?s2 \<in> set (rm t (lit trig) ?s1)"
      unfolding rm_lit by simp
    moreover from h(3,4) d2 len have "s' \<in> set (rm t (Seq (Group 2 body) (Seq Eol Eps)) ?s2)"
      unfolding rm_query [OF assms] by simp
    ultimately show "s' \<in> set (rm t (seq [Group 1 (Alt Bol (One [EscS])), lit trig, Group 2 body, Eol])
                    (i, Map.empty))"
      unfolding e by (subst rm_Seq_mem, intro bexI[of _ ?s1], subst rm_Seq_mem, intro bexI[of _ ?s2])
  qed
qed

text \<open>
  A match of \<open>js_match\<close> is a success from some start index; there is none exactly when
  the text has no split into a prefix that is empty or ends in whitespace, the trigger and
  a string of the body.
\<close>

lemma start_indices: "i \<in> set [0 ..< Suc n] \<longleftrightarrow> i \<le> n"
  by auto

lemma exec_from_None:
  "exec_from t r is = None \<longleftrightarrow> (\<forall>i \<in> set is. rm t r (i, Map.empty) = [])"
  by (induction "is") (auto split: list.splits)

lemma exec_from_Some:
  "exec_from t r is = Some m \<Longrightarrow>
     \<exists>i \<in> set is. \<exists>s \<in> set (rm t r (i, Map.empty)).
       m = \<lparr>index = i, m0 = substring t i (fst s), m1 = capture t (snd s) 1,
            m2 = capture t (snd s) 2\<rparr>"
  by (induction "is") (auto split: list.splits)

lemma split_at_anchor:
  assumes "drop i t = g @ trig @ q" and "i \<le> length t"
      and "i = 0 \<and> g = [] \<or> (\<exists>sp. g = [sp] \<and> is_space sp)"
  shows "t = (take i t @ g) @ trig @ q \<and> preceded (take i t @ g)"
proof -
  have "t = take i t @ drop i t" by simp
  with assms(1) have "t = (take i t @ g) @ trig @ q" by simp
  moreover from assms(3) have "preceded (take i t @ g)" by (auto simp: preceded_def)
  ultimately show ?thesis by simp
qed

lemma anchor_of_split:
  assumes "t = pre @ trig @ q" and "preceded pre"
  shows "\<exists>i g. i \<le> length t \<and> drop i t = g @ trig @ q \<and>
           (i = 0 \<and> g = [] \<or> (\<exists>sp. g = [sp] \<and> is_space sp))"
proof (cases "pre = []")
  case True
  with assms show ?thesis by (intro exI[of _ 0] exI[of _ "[]"]) simp
next
  case False
  then have p: "pre = butlast pre @ [last pre]" by simp
  from False assms(2) have sp: "is_space (last pre)" by (simp add: preceded_def)
  have "t = butlast pre @ ([last pre] @ trig @ q)"
    using assms(1) p by (metis append.assoc)
  then have "drop (length (butlast pre)) t = [last pre] @ trig @ q"
    by (metis append_eq_conv_conj)
  moreover have "length (butlast pre) \<le> length t" using assms(1) by simp
  ultimately show ?thesis using sp
    by (intro exI[of _ "length (butlast pre)"] exI[of _ "[last pre]"]) simp
qed

lemma js_match_trigger_None:
  assumes "plain body"
  shows "js_match t (seq [Group 1 (Alt Bol (One [EscS])), lit trig, Group 2 body, Eol]) = None
     \<longleftrightarrow> \<not> (\<exists>pre q. t = pre @ trig @ q \<and> preceded pre \<and> lang body q)"
proof
  assume n: "js_match t (seq [Group 1 (Alt Bol (One [EscS])), lit trig, Group 2 body, Eol]) = None"
  show "\<not> (\<exists>pre q. t = pre @ trig @ q \<and> preceded pre \<and> lang body q)"
  proof
    assume "\<exists>pre q. t = pre @ trig @ q \<and> preceded pre \<and> lang body q"
    then obtain pre q where h: "t = pre @ trig @ q" "preceded pre" "lang body q" by blast
    from anchor_of_split [OF h(1,2)] obtain i g where ig: "i \<le> length t"
        "drop i t = g @ trig @ q" "i = 0 \<and> g = [] \<or> (\<exists>sp. g = [sp] \<and> is_space sp)"
      by blast
    with h(3) have "(length t, [1 \<mapsto> (i, i + length g),
                            2 \<mapsto> (i + length g + length trig, length t)])
        \<in> set (rm t (seq [Group 1 (Alt Bol (One [EscS])), lit trig, Group 2 body, Eol])
                    (i, Map.empty))"
      unfolding rm_trigger_pattern [OF assms] by blast
    then have "rm t (seq [Group 1 (Alt Bol (One [EscS])), lit trig, Group 2 body, Eol])
                    (i, Map.empty) \<noteq> []" by auto
    moreover from ig(1) have "i \<in> set [0 ..< Suc (length t)]" by (simp only: start_indices)
    ultimately show False using n unfolding js_match_def exec_from_None by blast
  qed
next
  assume a: "\<not> (\<exists>pre q. t = pre @ trig @ q \<and> preceded pre \<and> lang body q)"
  have "rm t (seq [Group 1 (Alt Bol (One [EscS])), lit trig, Group 2 body, Eol])
                    (i, Map.empty) = []" if "i \<in> set [0 ..< Suc (length t)]" for i
  proof (rule ccontr)
    assume "rm t (seq [Group 1 (Alt Bol (One [EscS])), lit trig, Group 2 body, Eol])
                    (i, Map.empty) \<noteq> []"
    then obtain s where "s \<in> set (rm t (seq [Group 1 (Alt Bol (One [EscS])), lit trig,
        Group 2 body, Eol]) (i, Map.empty))"
      by (meson last_in_set)
    then obtain g q where h: "i = 0 \<and> g = [] \<or> (\<exists>sp. g = [sp] \<and> is_space sp)"
        "drop i t = g @ trig @ q" "lang body q"
      unfolding rm_trigger_pattern [OF assms] by blast
    from that have "i \<le> length t" by (simp only: start_indices)
    from split_at_anchor [OF h(2) this h(1)] h(3) a show False by blast
  qed
  then show "js_match t (seq [Group 1 (Alt Bol (One [EscS])), lit trig, Group 2 body, Eol]) = None"
    unfolding js_match_def exec_from_None by blast
qed

lemma js_match_trigger_Some:
  assumes "plain body"
      and "js_match t (seq [Group 1 (Alt Bol (One [EscS])), lit trig, Group 2 body, Eol]) = Some m"
  shows "\<exists>pre q. t = pre @ trig @ q \<and> preceded pre \<and> lang body q \<and> m2 m = Some q"
proof -
  from assms(2) obtain i s where i: "i \<in> set [0 ..< Suc (length t)]"
      and s: "s \<in> set (rm t (seq [Group 1 (Alt Bol (One [EscS])), lit trig, Group 2 body, Eol])
                    (i, Map.empty))"
      and m: "m = \<lparr>index = i, m0 = substring t i (fst s), m1 = capture t (snd s) 1,
            m2 = capture t (snd s) 2\<rparr>"
    unfolding js_match_def by (blast dest: exec_from_Some)
  from s obtain g q where h: "i = 0 \<and> g = [] \<or> (\<exists>sp. g = [sp] \<and> is_space sp)"
      "drop i t = g @ trig @ q" "lang body q"
      "s = (length t, [1 \<mapsto> (i, i + length g),
                      2 \<mapsto> (i + length g + length trig, length t)])"
    unfolding rm_trigger_pattern [OF assms(1)] by blast
  from i have il: "i \<le> length t" by (simp only: start_indices)
  from h(2) have "drop (i + length g) t = trig @ q" by (rule drop_split)
  then have d: "drop (i + length g + length trig) t = q" by (rule drop_split)
  from d have "length q = length t - (i + length g + length trig)"
    by (metis length_drop)
  with m h(4) d have "m2 m = Some q"
    by (simp add: capture_def substring_def)
  with split_at_anchor [OF h(2) il h(1)] h(3) show ?thesis by blast
qed

text \<open>The bodies of the patterns of \<open>getRegexp\<close> match the queries of the description.\<close>

lemma lang_mention_body_space:
  "lang (seq [X [EscW, Ch 45, Ch 43], Opt [EscS], Star [EscW, Ch 45, Ch 43]]) q \<longleftrightarrow>
     (\<exists>a w b. q = a @ w @ b \<and> lang (X [EscW, Ch 45, Ch 43]) a \<and>
        (w = [] \<or> (\<exists>sp. w = [sp] \<and> is_space sp)) \<and>
        list_all (in_class [EscW, Ch 45, Ch 43]) b)"
  by (simp add: seq_def in_class_def) blast

lemma lang_body_one: "lang (seq [r]) q \<longleftrightarrow> lang r q"
  by (simp add: seq_def)

lemma mention_query_lang:
  "mention_query opts q \<longleftrightarrow>
     lang (if allowSpace opts
           then seq [(if requireText opts then Plus else Star) [EscW, Ch 45, Ch 43], Opt [EscS],
                     Star [EscW, Ch 45, Ch 43]]
           else seq [(if requireText opts then Plus else Star) [EscW, Ch 45, Ch 43]]) q"
proof (cases "allowSpace opts")
  case True
  then show ?thesis
    by (cases "requireText opts") (auto simp: mention_query_def lang_mention_body_space)
next
  case False
  show ?thesis
  proof (cases "requireText opts")
    case True
    have "(\<exists>a b. q = a @ b \<and> list_all (in_class [EscW, Ch 45, Ch 43]) a \<and> a \<noteq> [] \<and>
             list_all (in_class [EscW, Ch 45, Ch 43]) b) \<longleftrightarrow>
          q \<noteq> [] \<and> list_all (in_class [EscW, Ch 45, Ch 43]) q"
      by (metis append_Nil2 append_is_Nil_conv list_all_append list.pred_inject(1))
    with True False show ?thesis
      by (simp add: mention_query_def lang_body_one)
  next
    case rt: False
    have "(\<exists>a b. q = a @ b \<and> list_all (in_class [EscW, Ch 45, Ch 43]) a \<and>
             list_all (in_class [EscW, Ch 45, Ch 43]) b) \<longleftrightarrow>
          list_all (in_class [EscW, Ch 45, Ch 43]) q"
      by (metis append_Nil2 list_all_append list.pred_inject(1))
    with rt False show ?thesis
      by (simp add: mention_query_def lang_body_one)
  qed
qed

lemma tag_query_lang: "tag_query q \<longleftrightarrow> lang (seq [Plus [EscW, Ch 45]]) q"
  by (simp add: tag_query_def lang_body_one)

lemma plain_bodies:
  "plain (if a then seq [(if r then Plus else Star) [EscW, Ch 45, Ch 43], Opt [EscS],
                         Star [EscW, Ch 45, Ch 43]]
          else seq [(if r then Plus else Star) [EscW, Ch 45, Ch 43]])"
  "plain (seq [Plus [EscW, Ch 45]])"
  by (simp_all add: seq_def)

lemma mention_getRegexp:
  "mention (getRegexp mt ht a r) =
     seq [Group 1 (Alt Bol (One [EscS])), lit mt,
          Group 2 (if a then seq [(if r then Plus else Star) [EscW, Ch 45, Ch 43], Opt [EscS],
                                  Star [EscW, Ch 45, Ch 43]]
                   else seq [(if r then Plus else Star) [EscW, Ch 45, Ch 43]]),
          Eol]"
  by (simp add: getRegexp_def)

lemma tag_getRegexp:
  "regexps.tag (getRegexp mt ht a r) =
     seq [Group 1 (Alt Bol (One [EscS])), lit ht, Group 2 (seq [Plus [EscW, Ch 45]]), Eol]"
  by (simp add: getRegexp_def)

lemma mention_match_None:
  "js_match t (mention (getRegexp (mentionTrigger opts) (hashtagTrigger opts) (allowSpace opts)
       (requireText opts))) = None \<longleftrightarrow> \<not> activates opts Mention t"
  unfolding mention_getRegexp js_match_trigger_None [OF plain_bodies(1)]
  by (simp add: activates_def mention_query_lang)

lemma tag_match_None:
  "js_match t (regexps.tag (getRegexp (mentionTrigger opts) (hashtagTrigger opts) (allowSpace opts)
       (requireText opts))) = None \<longleftrightarrow> \<not> activates opts Tag t"
  unfolding tag_getRegexp js_match_trigger_None [OF plain_bodies(2)]
  by (simp add: activates_def tag_query_lang)

lemma mention_match_Some:
  assumes "js_match t (mention (getRegexp (mentionTrigger opts) (hashtagTrigger opts)
       (allowSpace opts) (requireText opts))) = Some m"
  shows "\<exists>pre q. t = pre @ mentionTrigger opts @ q \<and> preceded pre \<and> mention_query opts q \<and>
           m2 m = Some q"
  using js_match_trigger_Some [OF plain_bodies(1) assms [unfolded mention_getRegexp]]
  by (simp add: mention_query_lang)

lemma tag_match_Some:
  assumes "js_match t (regexps.tag (getRegexp (mentionTrigger opts) (hashtagTrigger opts)
       (allowSpace opts) (requireText opts))) = Some m"
  shows "\<exists>pre q. t = pre @ hashtagTrigger opts @ q \<and> preceded pre \<and> tag_query q \<and>
           m2 m = Some q"
  using js_match_trigger_Some [OF plain_bodies(2) assms [unfolded tag_getRegexp]]
  by (simp add: tag_query_lang)

lemma getMatch_None:
  "getMatch position opts = None \<longleftrightarrow>
     js_match (textBefore position) (mention (getRegexp (mentionTrigger opts) (hashtagTrigger opts)
       (allowSpace opts) (requireText opts))) = None \<and>
     js_match (textBefore position) (regexps.tag (getRegexp (mentionTrigger opts)
       (hashtagTrigger opts) (allowSpace opts) (requireText opts))) = None"
  by (simp add: getMatch_def Let_def split: option.splits)

lemma getMatch_Some:
  assumes "getMatch position opts = Some r"
  shows "(\<exists>m. js_match (textBefore position) (mention (getRegexp (mentionTrigger opts)
             (hashtagTrigger opts) (allowSpace opts) (requireText opts))) = Some m \<and>
            type r = Mention \<and> queryText r = m2 m) \<or>
         (\<exists>m. js_match (textBefore position) (regexps.tag (getRegexp (mentionTrigger opts)
             (hashtagTrigger opts) (allowSpace opts) (requireText opts))) = Some m \<and>
            type r = Tag \<and> queryText r = m2 m)"
  using assms by (auto simp: getMatch_def Let_def split: option.splits)

lemma getMatch_split:
  assumes "getMatch position opts = Some r"
  shows "\<exists>pre q. textBefore position = pre @ trigger_of opts (type r) @ q \<and> preceded pre \<and>
           query_of opts (type r) q \<and> queryText r = Some q"
  using getMatch_Some [OF assms]
proof
  assume "\<exists>m. js_match (textBefore position) (mention (getRegexp (mentionTrigger opts)
             (hashtagTrigger opts) (allowSpace opts) (requireText opts))) = Some m \<and>
            type r = Mention \<and> queryText r = m2 m"
  then obtain m where m: "js_match (textBefore position) (mention (getRegexp (mentionTrigger opts)
             (hashtagTrigger opts) (allowSpace opts) (requireText opts))) = Some m"
      "type r = Mention" "queryText r = m2 m" by blast
  from mention_match_Some [OF m(1)] m(2,3) show ?thesis by auto
next
  assume "\<exists>m. js_match (textBefore position) (regexps.tag (getRegexp (mentionTrigger opts)
             (hashtagTrigger opts) (allowSpace opts) (requireText opts))) = Some m \<and>
            type r = Tag \<and> queryText r = m2 m"
  then obtain m where m: "js_match (textBefore position) (regexps.tag (getRegexp
             (mentionTrigger opts) (hashtagTrigger opts) (allowSpace opts) (requireText opts))) =
             Some m"
      "type r = Tag" "queryText r = m2 m" by blast
  from tag_match_Some [OF m(1)] m(2,3) show ?thesis by auto
qed

text \<open>The characters of a query are word characters, dashes, plus signs or whitespace.\<close>

lemma query_chars:
  assumes "query_of opts ty q" and "c \<in> set q"
  shows "in_class [EscW, Ch 45, Ch 43] c \<or> is_space c"
proof (cases ty)
  case Mention
  with assms(1) obtain a w b where h: "q = a @ w @ b"
      "list_all (in_class [EscW, Ch 45, Ch 43]) a"
      "w = [] \<or> (\<exists>sp. w = [sp] \<and> is_space sp)"
      "list_all (in_class [EscW, Ch 45, Ch 43]) b"
    by (auto simp: mention_query_def)
  with assms(2) show ?thesis by (auto simp: list_all_iff)
next
  case Tag
  with assms show ?thesis
    by (auto simp: tag_query_def list_all_iff in_class_def)
next
  case NoType
  with assms show ?thesis by simp
qed

lemma last_occurrence:
  assumes "pre @ c # q = pre' @ c # q'" and "c \<notin> set q" and "c \<notin> set q'"
  shows "pre = pre'"
proof -
  have "takeWhile (\<lambda>x. x \<noteq> c) (rev (pre @ c # q)) = rev q"
    using assms(2) by (auto simp: takeWhile_tail)
  moreover have "takeWhile (\<lambda>x. x \<noteq> c) (rev (pre' @ c # q')) = rev q'"
    using assms(3) by (auto simp: takeWhile_tail)
  ultimately have "q = q'" using assms(1) by (metis rev_rev_ident)
  with assms(1) show ?thesis by simp
qed

section \<open>When the matcher activates\<close>

text \<open>
  The description of the matcher asks only that the text from the trigger to the cursor
  holds no whitespace. The text \<open>@a.b\<close> has the trigger at the start of the line and no
  whitespace after it, and the matcher does not match it: the dot is not a character of
  \<open>[\w-\+]\<close>.
\<close>

theorem getMatch_no_whitespace_counterexample:
  "getMatch \<lparr>pos = 4, start = 0, textBefore = js ''@a.b''\<rparr> defaultOpts = None \<and>
   js ''@a.b'' = [] @ mentionTrigger defaultOpts @ js ''a.b'' \<and>
   \<not> list_ex is_space (js ''a.b'')"
  by (simp add: getMatch_def defaultOpts_def matcher_defs)

text \<open>
  C2, amended. For triggers that hold no syntax character of a pattern (they are spliced
  into the pattern unescaped), \<open>getMatch\<close> returns a match exactly when the text up to
  the cursor is some text that is empty or ends in whitespace, then the trigger of a mention
  or of a tag, then a query for that trigger: for a mention, word characters, dashes and
  plus signs (at least one with \<open>requireText\<close>), then with \<open>allowSpace\<close> at most one
  whitespace character, then word characters, dashes and plus signs; for a tag, one or more
  word characters and dashes. A match that is returned has such a split for its own type,
  and its \<open>queryText\<close> is the text after the trigger. When a trigger is one character
  that is neither whitespace nor a character of \<open>[\w-\+]\<close>, and its last occurrence in
  the text comes after a character that is not whitespace, no match of the type of that
  trigger is returned.
\<close>

theorem getMatch_activation:
  assumes "literal_trigger (mentionTrigger opts)" and "literal_trigger (hashtagTrigger opts)"
  shows
  "(getMatch position opts \<noteq> None \<longleftrightarrow>
      activates opts Mention (textBefore position) \<or> activates opts Tag (textBefore position)) \<and>
   (\<forall>r. getMatch position opts = Some r \<longrightarrow>
      (\<exists>pre q. textBefore position = pre @ trigger_of opts (type r) @ q \<and> preceded pre \<and>
         query_of opts (type r) q \<and> queryText r = Some q)) \<and>
   (\<forall>ty c pre q r.
      trigger_of opts ty = [c] \<and> \<not> is_space c \<and> \<not> in_class [EscW, Ch 45, Ch 43] c \<and>
      textBefore position = pre @ c # q \<and> c \<notin> set q \<and> pre \<noteq> [] \<and> \<not> is_space (last pre) \<and>
      getMatch position opts = Some r \<longrightarrow> type r \<noteq> ty)"
proof (intro conjI allI impI)
  show "getMatch position opts \<noteq> None \<longleftrightarrow>
      activates opts Mention (textBefore position) \<or> activates opts Tag (textBefore position)"
    unfolding getMatch_None using mention_match_None tag_match_None by blast
next
  fix r assume "getMatch position opts = Some r"
  then show "\<exists>pre q. textBefore position = pre @ trigger_of opts (type r) @ q \<and> preceded pre \<and>
         query_of opts (type r) q \<and> queryText r = Some q"
    by (rule getMatch_split)
next
  fix ty c pre q r
  assume a: "trigger_of opts ty = [c] \<and> \<not> is_space c \<and> \<not> in_class [EscW, Ch 45, Ch 43] c \<and>
      textBefore position = pre @ c # q \<and> c \<notin> set q \<and> pre \<noteq> [] \<and> \<not> is_space (last pre) \<and>
      getMatch position opts = Some r"
  show "type r \<noteq> ty"
  proof
    assume ty: "type r = ty"
    from a getMatch_split [of position opts r] obtain pre' q' where
      h: "textBefore position = pre' @ trigger_of opts (type r) @ q'" "preceded pre'"
         "query_of opts (type r) q'"
      by blast
    from a query_chars [OF h(3)] have "c \<notin> set q'" by blast
    moreover from a have "textBefore position = pre @ c # q" by blast
    moreover from a h(1) ty have "textBefore position = pre' @ c # q'" by simp
    ultimately have "pre = pre'" using a last_occurrence [of pre c q pre' q'] by simp
    with a h(2) show False by (simp add: preceded_def)
  qed
qed

text \<open>
  The text \<open>hello @ali\<close> has the split \<open>hello \<close>, \<open>@\<close>, \<open>ali\<close>, so the matcher
  matches it. In \<open>a@b #c\<close> the \<open>@\<close> comes after \<open>a\<close>: the match returned is the tag.
\<close>

theorem getMatch_activation_witness:
  "literal_trigger (mentionTrigger defaultOpts) \<and>
   literal_trigger (hashtagTrigger defaultOpts) \<and>
   activates defaultOpts Mention (js ''hello @ali'') \<and>
   getMatch \<lparr>pos = 10, start = 0, textBefore = js ''hello @ali''\<rparr> defaultOpts \<noteq> None \<and>
   getMatch \<lparr>pos = 10, start = 0, textBefore = js ''hello @ali''\<rparr> defaultOpts =
     Some \<lparr>range = \<lparr>from = 6, to = 10\<rparr>, queryText = Some (js ''ali''), type = Mention\<rparr> \<and>
   (\<exists>pre q. js ''hello @ali'' = pre @ trigger_of defaultOpts Mention @ q \<and> preceded pre \<and>
      query_of defaultOpts Mention q \<and> Some (js ''ali'') = Some q) \<and>
   getMatch \<lparr>pos = 6, start = 0, textBefore = js ''a@b #c''\<rparr> defaultOpts =
     Some \<lparr>range = \<lparr>from = 4, to = 6\<rparr>, queryText = Some (js ''c''), type = Tag\<rparr> \<and>
   trigger_of defaultOpts Mention = [64] \<and> \<not> is_space 64 \<and>
   \<not> in_class [EscW, Ch 45, Ch 43] 64 \<and> js ''a@b #c'' = js ''a'' @ 64 # js ''b #c'' \<and>
   64 \<notin> set (js ''b #c'') \<and> js ''a'' \<noteq> [] \<and> \<not> is_space (last (js ''a'')) \<and>
   type \<lparr>range = \<lparr>from = 4, to = 6\<rparr>, queryText = Some (js ''c''), type = Tag\<rparr> \<noteq> Mention"
proof -
  have l: "literal_trigger (mentionTrigger defaultOpts)"
    "literal_trigger (hashtagTrigger defaultOpts)"
    by (simp_all add: literal_trigger_def syntax_char_def defaultOpts_def js_def)
  note act = getMatch_activation [OF l]
  have q: "mention_query defaultOpts (js ''ali'')"
    unfolding mention_query_def
    by (intro exI[of _ "js ''ali''"] exI[of _ "[]"])
       (simp add: js_def in_class_def is_word_def)
  have a: "activates defaultOpts Mention (js ''hello @ali'')"
    unfolding activates_def
    by (intro exI[of _ "js ''hello ''"] exI[of _ "js ''ali''"])
       (simp add: q preceded_def, simp add: js_def defaultOpts_def is_space_def)
  from a act [of "\<lparr>pos = 10, start = 0, textBefore = js ''hello @ali''\<rparr>"]
  have n: "getMatch \<lparr>pos = 10, start = 0, textBefore = js ''hello @ali''\<rparr> defaultOpts \<noteq> None"
    by simp
  have e: "getMatch \<lparr>pos = 10, start = 0, textBefore = js ''hello @ali''\<rparr> defaultOpts =
     Some \<lparr>range = \<lparr>from = 6, to = 10\<rparr>, queryText = Some (js ''ali''), type = Mention\<rparr>"
    by (simp add: getMatch_def defaultOpts_def matcher_defs)
  from e act [of "\<lparr>pos = 10, start = 0, textBefore = js ''hello @ali''\<rparr>"]
  have b: "\<exists>pre q. js ''hello @ali'' = pre @ trigger_of defaultOpts Mention @ q \<and> preceded pre \<and>
      query_of defaultOpts Mention q \<and> Some (js ''ali'') = Some q"
    by simp
  have g: "getMatch \<lparr>pos = 6, start = 0, textBefore = js ''a@b #c''\<rparr> defaultOpts =
     Some \<lparr>range = \<lparr>from = 4, to = 6\<rparr>, queryText = Some (js ''c''), type = Tag\<rparr>"
    by (simp add: getMatch_def defaultOpts_def matcher_defs)
  have h: "trigger_of defaultOpts Mention = [64] \<and> \<not> is_space 64 \<and>
     \<not> in_class [EscW, Ch 45, Ch 43] 64 \<and> js ''a@b #c'' = js ''a'' @ 64 # js ''b #c'' \<and>
     64 \<notin> set (js ''b #c'') \<and> js ''a'' \<noteq> [] \<and> \<not> is_space (last (js ''a''))"
    by (simp add: defaultOpts_def js_def is_space_def in_class_def is_word_def)
  from g h act [of "\<lparr>pos = 6, start = 0, textBefore = js ''a@b #c''\<rparr>"]
  have "type \<lparr>range = \<lparr>from = 4, to = 6\<rparr>, queryText = Some (js ''c''), type = Tag\<rparr> \<noteq> Mention"
    by simp
  with l a n e b g h show ?thesis by simp
qed

section \<open>The whitespace before the trigger\<close>

text \<open>
  C5. On the line \<open>hello @ali\<close> with the cursor at its end (and the line starting at
  offset 0) the matcher returns the range from 6 to 10, the query text \<open>ali\<close> and the type
  mention: the space that the pattern matched before the trigger is stripped. Only the
  space character is: on the text of a tab (code unit 9) and \<open>@ali\<close> the match of the
  pattern starts with the tab, \<open>startsWith(" ")\<close> is false, and the range returned starts
  at the tab, at 0 and not at 1.
\<close>

theorem getMatch_strips_only_space:
  "getMatch \<lparr>pos = 10, start = 0, textBefore = js ''hello @ali''\<rparr> defaultOpts =
     Some \<lparr>range = \<lparr>from = 6, to = 10\<rparr>, queryText = Some (js ''ali''), type = Mention\<rparr> \<and>
   is_space 9 \<and>
   js_match (9 # js ''@ali'') (mention (getRegexp (js ''@'') (js ''#'') True False)) =
     Some \<lparr>index = 0, m0 = 9 # js ''@ali'', m1 = Some [9], m2 = Some (js ''ali'')\<rparr> \<and>
   getMatch \<lparr>pos = 5, start = 0, textBefore = 9 # js ''@ali''\<rparr> defaultOpts =
     Some \<lparr>range = \<lparr>from = 0, to = 5\<rparr>, queryText = Some (js ''ali''), type = Mention\<rparr>"
  by (simp add: getMatch_def defaultOpts_def matcher_defs)

text \<open>
  C10. After a no-break space (code unit 160) the text \<open>@al\<close> gives the range from 0 to
  4: its length is two more than the length of the query text, since the range holds the
  no-break space as well as the trigger.
\<close>

theorem getMatch_range_holds_anchor:
  "is_space 160 \<and>
   getMatch \<lparr>pos = 4, start = 0, textBefore = 160 # js ''@al''\<rparr> defaultOpts =
     Some \<lparr>range = \<lparr>from = 0, to = 4\<rparr>, queryText = Some (js ''al''), type = Mention\<rparr> \<and>
   (4::nat) - 0 = 2 + length (js ''al'')"
  by (simp add: getMatch_def defaultOpts_def matcher_defs)

section \<open>The mention pattern comes first\<close>

text \<open>
  C8. On a text that both patterns match, \<open>getMatch\<close> returns the match of the mention
  pattern: the type is \<open>mention\<close>, the range and the query text are computed from the
  match of the mention pattern, and the match of the tag pattern has no part in the result.
\<close>

theorem getMatch_mention_priority:
  assumes "js_match (textBefore position) (mention (getRegexp (mentionTrigger opts)
             (hashtagTrigger opts) (allowSpace opts) (requireText opts))) = Some mm"
      and "js_match (textBefore position) (regexps.tag (getRegexp (mentionTrigger opts)
             (hashtagTrigger opts) (allowSpace opts) (requireText opts))) = Some tgm"
  shows "getMatch position opts =
           Some \<lparr>range =
                   \<lparr>from = start position +
                      (if startsWith (m0 mm) (js '' '') then index mm + 1 else index mm),
                    to = start position +
                      (if startsWith (m0 mm) (js '' '') then index mm + 1 else index mm) +
                      length (if startsWith (m0 mm) (js '' '')
                              then substring (m0 mm) 1 (length (m0 mm)) else m0 mm)\<rparr>,
                  queryText = m2 mm, type = Mention\<rparr>"
  using assms by (simp add: getMatch_def Let_def)

text \<open>
  Both patterns match the text \<open>@ab\<close> when both triggers are \<open>@\<close>; the result is the
  mention.
\<close>

theorem getMatch_mention_priority_witness:
  "js_match (js ''@ab'') (mention (getRegexp (js ''@'') (js ''@'') True False)) =
     Some \<lparr>index = 0, m0 = js ''@ab'', m1 = Some [], m2 = Some (js ''ab'')\<rparr> \<and>
   js_match (js ''@ab'') (regexps.tag (getRegexp (js ''@'') (js ''@'') True False)) =
     Some \<lparr>index = 0, m0 = js ''@ab'', m1 = Some [], m2 = Some (js ''ab'')\<rparr> \<and>
   getMatch \<lparr>pos = 3, start = 0, textBefore = js ''@ab''\<rparr>
       (defaultOpts\<lparr>hashtagTrigger := js ''@''\<rparr>) =
     Some \<lparr>range = \<lparr>from = 0, to = 3\<rparr>, queryText = Some (js ''ab''), type = Mention\<rparr>"
proof -
  have m: "js_match (js ''@ab'') (mention (getRegexp (js ''@'') (js ''@'') True False)) =
     Some \<lparr>index = 0, m0 = js ''@ab'', m1 = Some [], m2 = Some (js ''ab'')\<rparr>"
    by (simp add: matcher_defs)
  have t: "js_match (js ''@ab'') (regexps.tag (getRegexp (js ''@'') (js ''@'') True False)) =
     Some \<lparr>index = 0, m0 = js ''@ab'', m1 = Some [], m2 = Some (js ''ab'')\<rparr>"
    by (simp add: matcher_defs)
  have "getMatch \<lparr>pos = 3, start = 0, textBefore = js ''@ab''\<rparr>
       (defaultOpts\<lparr>hashtagTrigger := js ''@''\<rparr>) =
     Some \<lparr>range = \<lparr>from = 0, to = 3\<rparr>, queryText = Some (js ''ab''), type = Mention\<rparr>"
    using getMatch_mention_priority
      [of "\<lparr>pos = 3, start = 0, textBefore = js ''@ab''\<rparr>"
          "defaultOpts\<lparr>hashtagTrigger := js ''@''\<rparr>"
          "\<lparr>index = 0, m0 = js ''@ab'', m1 = Some [], m2 = Some (js ''ab'')\<rparr>"
          "\<lparr>index = 0, m0 = js ''@ab'', m1 = Some [], m2 = Some (js ''ab'')\<rparr>"]
      m t
    by (simp add: defaultOpts_def js_def substring_def)
  with m t show ?thesis by simp
qed

section \<open>Debounce\<close>

lemma advance_quiet:
  assumes "quiet t ts"
  shows "advance t ts = ([], ts\<lparr>now := t\<rparr>)"
  using assms by (auto simp: quiet_def advance_def max_def)

lemma debounce_quiet:
  assumes "quiet t ts"
  shows "\<exists>i. debounce f d (ts\<lparr>now := t\<rparr>) =
           (i, ts\<lparr>now := t, next_id := Suc (next_id ts), pending := [(i, t + d, f)],
                  timeoutId := Some i\<rparr>)"
  using assms
  by (auto simp: quiet_def debounce_def clearTimeout_def setTimeout_def split: option.splits)

lemma debounce_calls_quiet:
  assumes "within d (map fst (c # cs))" and "quiet (fst c) ts"
  shows "\<exists>i ts'. debounce_calls d (c # cs) ts = ([], ts') \<and>
           pending ts' = [(i, fst (last (c # cs)) + d, snd (last (c # cs)))] \<and>
           now ts' = fst (last (c # cs))"
  using assms
proof (induction cs arbitrary: c ts)
  case Nil
  from debounce_quiet [OF Nil(2), of "snd c" d] obtain i where
    "debounce (snd c) d (ts\<lparr>now := fst c\<rparr>) =
       (i, ts\<lparr>now := fst c, next_id := Suc (next_id ts), pending := [(i, fst c + d, snd c)],
              timeoutId := Some i\<rparr>)" by blast
  with Nil(2) show ?case by (simp add: advance_quiet)
next
  case (Cons c' cs)
  from debounce_quiet [OF Cons(3), of "snd c" d] obtain i where
    i: "debounce (snd c) d (ts\<lparr>now := fst c\<rparr>) =
       (i, ts\<lparr>now := fst c, next_id := Suc (next_id ts), pending := [(i, fst c + d, snd c)],
              timeoutId := Some i\<rparr>)" by blast
  let ?ts2 = "ts\<lparr>now := fst c, next_id := Suc (next_id ts), pending := [(i, fst c + d, snd c)],
              timeoutId := Some i\<rparr>"
  from Cons(2) have w: "within d (map fst (c' # cs))" and le: "fst c \<le> fst c'"
      and lt: "fst c' < fst c + d" by simp_all
  from le lt have "quiet (fst c') ?ts2" by (simp add: quiet_def)
  from Cons.IH [OF w this] obtain j ts' where
    r: "debounce_calls d (c' # cs) ?ts2 = ([], ts')"
       "pending ts' = [(j, fst (last (c' # cs)) + d, snd (last (c' # cs)))]"
       "now ts' = fst (last (c' # cs))" by blast
  have "debounce_calls d (c # c' # cs) ts = ([], ts')"
    using advance_quiet [OF Cons(3)] i r(1) by (simp del: debounce_calls.simps(2) add: debounce_calls.simps(2)[of d c "c' # cs"])
  with r(2,3) show ?case by auto
qed

text \<open>
  C3. Calls of \<open>debounce\<close> with the delay \<open>d\<close>, one or more, each less than \<open>d\<close> after
  the one before, starting with no timer pending: no task runs while the calls are made;
  none runs before \<open>d\<close> has passed since the last call; once it has, the task of the last
  call has run, it alone, and no timer is left, so the tasks of the earlier calls never
  run.
\<close>

theorem debounce_trailing_edge:
  assumes "cs \<noteq> []" and "within d (map fst cs)" and "now ts \<le> fst (hd cs)"
      and "pending ts = []"
  shows "fst (debounce_calls d cs ts) = [] \<and>
         (\<forall>T. T < fst (last cs) + d \<longrightarrow> fst (advance T (snd (debounce_calls d cs ts))) = []) \<and>
         (\<forall>T. fst (last cs) + d \<le> T \<longrightarrow>
            fst (advance T (snd (debounce_calls d cs ts))) = [snd (last cs)] \<and>
            pending (snd (advance T (snd (debounce_calls d cs ts)))) = [])"
proof -
  from assms(1) obtain c cs' where cs: "cs = c # cs'" by (cases cs) auto
  from assms(3,4) cs have "quiet (fst c) ts" by (simp add: quiet_def)
  from debounce_calls_quiet [OF assms(2) [unfolded cs] this] obtain i ts' where
    r: "debounce_calls d cs ts = ([], ts')"
       "pending ts' = [(i, fst (last cs) + d, snd (last cs))]"
    unfolding cs by blast
  then show ?thesis by (simp add: advance_def)
qed

text \<open>Calls at 0, 100 and 250 with the delay 500: nothing by 749, the last task at 750.\<close>

theorem debounce_trailing_edge_witness:
  "[(0, ''a''), (100, ''b''), (250, ''c'')] \<noteq> [] \<and>
   within 500 (map fst [(0, ''a''), (100, ''b''), (250, ''c'')]) \<and>
   now \<lparr>now = 0, next_id = 1, pending = [], timeoutId = None\<rparr> \<le>
     fst (hd [(0::nat, ''a''), (100, ''b''), (250, ''c'')]) \<and>
   pending \<lparr>now = 0, next_id = 1, pending = ([] :: (nat \<times> nat \<times> string) list), timeoutId = None\<rparr> = [] \<and>
   fst (debounce_calls 500 [(0, ''a''), (100, ''b''), (250, ''c'')]
          \<lparr>now = 0, next_id = 1, pending = [], timeoutId = None\<rparr>) = [] \<and>
   fst (advance 749 (snd (debounce_calls 500 [(0, ''a''), (100, ''b''), (250, ''c'')]
          \<lparr>now = 0, next_id = 1, pending = [], timeoutId = None\<rparr>))) = [] \<and>
   fst (advance 750 (snd (debounce_calls 500 [(0, ''a''), (100, ''b''), (250, ''c'')]
          \<lparr>now = 0, next_id = 1, pending = [], timeoutId = None\<rparr>))) = [''c'']"
proof -
  have h: "[(0::nat, ''a''), (100, ''b''), (250, ''c'')] \<noteq> []"
    "within 500 (map fst [(0::nat, ''a''), (100, ''b''), (250, ''c'')])"
    "now \<lparr>now = 0, next_id = 1, pending = ([] :: (nat \<times> nat \<times> string) list), timeoutId = None\<rparr> \<le>
       fst (hd [(0::nat, ''a''), (100, ''b''), (250, ''c'')])"
    "pending \<lparr>now = 0, next_id = 1, pending = ([] :: (nat \<times> nat \<times> string) list), timeoutId = None\<rparr> = []"
    by simp_all
  from debounce_trailing_edge [OF h] h show ?thesis by simp
qed

section \<open>The state of the plugin after a transaction\<close>

text \<open>
  C4. When the selection of the transaction is a range (\<open>selection.from\<close> differs from
  \<open>selection.to\<close>), \<open>apply\<close> returns the fresh state, which is not active, whatever
  the text before the selection is.
\<close>

theorem state_apply_range_selection:
  "sel_from (tr_selection tr) \<noteq> sel_to (tr_selection tr) \<Longrightarrow>
     state_apply opts tr st = getNewState \<and> active (state_apply opts tr st) = False"
  by (simp add: state_apply_def getNewState_def)

text \<open>
  At the selection from 3 to 7 after the text \<open>@al\<close> the state is not active; with the
  cursor at 3 after the same text it is.
\<close>

theorem state_apply_range_selection_witness:
  "sel_from (tr_selection \<lparr>tr_selection = \<lparr>sel_from = 3, sel_to = 7,
       sel_dfrom = \<lparr>pos = 3, start = 0, textBefore = js ''@al''\<rparr>\<rparr>\<rparr>) \<noteq>
   sel_to (tr_selection \<lparr>tr_selection = \<lparr>sel_from = 3, sel_to = 7,
       sel_dfrom = \<lparr>pos = 3, start = 0, textBefore = js ''@al''\<rparr>\<rparr>\<rparr>) \<and>
   active (state_apply defaultOpts \<lparr>tr_selection = \<lparr>sel_from = 3, sel_to = 7,
       sel_dfrom = \<lparr>pos = 3, start = 0, textBefore = js ''@al''\<rparr>\<rparr>\<rparr> getNewState) = False \<and>
   active (state_apply defaultOpts \<lparr>tr_selection = \<lparr>sel_from = 3, sel_to = 3,
       sel_dfrom = \<lparr>pos = 3, start = 0, textBefore = js ''@al''\<rparr>\<rparr>\<rparr> getNewState) = True"
proof -
  have h: "sel_from (tr_selection \<lparr>tr_selection = \<lparr>sel_from = 3, sel_to = 7,
       sel_dfrom = \<lparr>pos = 3, start = 0, textBefore = js ''@al''\<rparr>\<rparr>\<rparr>) \<noteq>
   sel_to (tr_selection \<lparr>tr_selection = \<lparr>sel_from = 3, sel_to = 7,
       sel_dfrom = \<lparr>pos = 3, start = 0, textBefore = js ''@al''\<rparr>\<rparr>\<rparr>)"
    by simp
  have a: "active (state_apply defaultOpts \<lparr>tr_selection = \<lparr>sel_from = 3, sel_to = 3,
       sel_dfrom = \<lparr>pos = 3, start = 0, textBefore = js ''@al''\<rparr>\<rparr>\<rparr> getNewState) = True"
    by (simp add: state_apply_def getMatch_def defaultOpts_def matcher_defs)
  from state_apply_range_selection [OF h, of defaultOpts getNewState] h a
  show ?thesis by blast
qed

section \<open>A fetch that completes\<close>

text \<open>
  A fetch for \<open>al\<close> is under way when the query becomes \<open>ali\<close>; the fetch for \<open>ali\<close>
  completes first and its items are shown. When the fetch for \<open>al\<close> completes, its items
  are shown as well, over those of \<open>ali\<close>, while the state still holds the query \<open>ali\<close>.
\<close>

theorem stale_fetch_counterexample:
  "calls (run defaultOpts
      [Transaction (typed ''@al''), Tick 500, Transaction (typed ''@ali''), Tick 1000,
       Done 1 [js ''alice''], Done 0 [js ''alan'', js ''alice'']] init_world) =
     [GetSuggestions Mention (Some (js ''al'')), GetSuggestions Mention (Some (js ''ali'')),
      ShowDropdownEl [js ''alice''], ShowDropdownEl [js ''alan'', js ''alice'']] \<and>
   text (pstate (run defaultOpts
      [Transaction (typed ''@al''), Tick 500, Transaction (typed ''@ali''), Tick 1000,
       Done 1 [js ''alice''], Done 0 [js ''alan'', js ''alice'']]
      (init_world :: jsstring list world))) = Some (js ''ali'')"
  by (simp add: plugin_defs apply_al apply_ali)

text \<open>
  C1, amended. When a fetch completes while the state is active, its items go to
  \<open>showDropdownEl\<close> and the list is displayed, whatever type and query text the fetch was
  made for: they are not compared with the state.
\<close>

theorem callWhenDone_shows_when_active:
  assumes "k < length (fetches w)" and "active (pstate w)"
  shows "calls (step opts w (Done k suggestionItems)) =
           calls w @ [ShowDropdownEl suggestionItems] \<and>
         el_display (step opts w (Done k suggestionItems)) = js ''block''"
  using assms by (simp add: callWhenDone_def showList_def decorations_def)

text \<open>
  After the query has changed from \<open>al\<close> to \<open>ali\<close>, the fetch under way is the one for
  \<open>al\<close>; its items are shown when it completes.
\<close>

theorem callWhenDone_shows_when_active_witness:
  "0 < length (fetches (run defaultOpts
      [Transaction (typed ''@al''), Tick 500, Transaction (typed ''@ali'')]
      (init_world :: jsstring list world))) \<and>
   active (pstate (run defaultOpts
      [Transaction (typed ''@al''), Tick 500, Transaction (typed ''@ali'')]
      (init_world :: jsstring list world))) \<and>
   map text (fetches (run defaultOpts
      [Transaction (typed ''@al''), Tick 500, Transaction (typed ''@ali'')]
      (init_world :: jsstring list world))) = [Some (js ''al'')] \<and>
   text (pstate (run defaultOpts
      [Transaction (typed ''@al''), Tick 500, Transaction (typed ''@ali'')]
      (init_world :: jsstring list world))) = Some (js ''ali'') \<and>
   calls (step defaultOpts (run defaultOpts
      [Transaction (typed ''@al''), Tick 500, Transaction (typed ''@ali'')] init_world)
      (Done 0 [js ''alan''])) =
     [GetSuggestions Mention (Some (js ''al'')), ShowDropdownEl [js ''alan'']]"
proof -
  have w: "run defaultOpts [Transaction (typed ''@al''), Tick 500, Transaction (typed ''@ali'')]
      (init_world :: jsstring list world) =
    \<lparr>pstate = \<lparr>active = True, state.range = \<lparr>from = 0, to = 4\<rparr>, state.type = Mention,
        text = Some (js ''ali'')\<rparr>,
      this_state = None, showListTimeoutId = Some 2,
      tm = \<lparr>now = 500, next_id = 3,
        pending = [(2, 1000, \<lparr>active = True, state.range = \<lparr>from = 0, to = 4\<rparr>,
          state.type = Mention, text = Some (js ''ali'')\<rparr>)],
        timeoutId = Some 2\<rparr>,
      fetches = [\<lparr>active = True, state.range = \<lparr>from = 0, to = 3\<rparr>, state.type = Mention,
        text = Some (js ''al'')\<rparr>],
      el_display = [], elAddedToBody = False,
      calls = [GetSuggestions Mention (Some (js ''al''))], dispatched = []\<rparr>"
    by (simp add: plugin_defs apply_al apply_ali numeral_2_eq_2 numeral_3_eq_3)
  have h: "0 < length (fetches (run defaultOpts
      [Transaction (typed ''@al''), Tick 500, Transaction (typed ''@ali'')]
      (init_world :: jsstring list world)))"
    "active (pstate (run defaultOpts
      [Transaction (typed ''@al''), Tick 500, Transaction (typed ''@ali'')]
      (init_world :: jsstring list world)))"
    by (simp_all add: w)
  from callWhenDone_shows_when_active [OF h, of defaultOpts "[js ''alan'']"]
  show ?thesis by (simp add: w)
qed

section \<open>The Escape key\<close>

text \<open>
  C6. After \<open>@al\<close> has been typed the state is active and a timer is pending. The Escape
  key is handled: the timer is cleared and the list hidden. The fresh state is assigned to
  the property \<open>state\<close> of the plugin object; the state of the plugin in the editor state,
  which \<open>getState\<close> reads, is as before and still active, so that the next key (here the
  down arrow) is handled as in an active state.
\<close>

theorem escape_leaves_state_active:
  "active (pstate (run defaultOpts [Transaction (typed ''@al'')]
      (init_world :: jsstring list world))) \<and>
   pending (tm (run defaultOpts [Transaction (typed ''@al'')]
      (init_world :: jsstring list world))) \<noteq> [] \<and>
   handleKeyDown 27 None (run defaultOpts [Transaction (typed ''@al'')]
      (init_world :: jsstring list world)) =
     (True,
      \<lparr>pstate = \<lparr>active = True, state.range = \<lparr>from = 0, to = 3\<rparr>, state.type = Mention,
         text = Some (js ''al'')\<rparr>,
       this_state = Some getNewState, showListTimeoutId = Some 1,
       tm = \<lparr>now = 0, next_id = 2, pending = [], timeoutId = Some 1\<rparr>,
       fetches = [], el_display = js ''none'', elAddedToBody = False,
       calls = [HideDropdownEl], dispatched = []\<rparr>) \<and>
   fst (handleKeyDown 40 None (snd (handleKeyDown 27 None
      (run defaultOpts [Transaction (typed ''@al'')] (init_world :: jsstring list world)))))"
  by (simp add: plugin_defs apply_al handleKeyDown_def hideList_def numeral_2_eq_2)

section \<open>Selection without a highlighted item\<close>

text \<open>
  C7. When \<open>getCurItemAttrsForSelect\<close> returns nothing, \<open>select\<close> leaves everything as
  it was: no transaction is dispatched and the state of the plugin is the same. So does the
  Enter key, which calls \<open>select\<close> when the state is active and is not handled otherwise.
\<close>

theorem select_nothing_highlighted:
  "select None st w = w \<and> snd (handleKeyDown 13 None w) = w"
  by (simp add: select_def handleKeyDown_def Let_def)

section \<open>The node specs round trip\<close>

text \<open>
  C9. For a mention node with the attributes \<open>did\<close> and \<open>handle\<close>, the element rendered
  from \<open>toDOM\<close> is matched by the selector of the parse rule, \<open>getAttrs\<close> reads the same
  \<open>did\<close> and \<open>handle\<close> back from it, and its text is \<open>@\<close> followed by the handle. For
  a tag node with the attribute \<open>tag\<close> likewise, with the text \<open>#\<close> followed by the tag.
\<close>

theorem node_specs_round_trip:
  "mentionNode_getAttrs (render (mentionNode_toDOM node)) =
     \<lparr>did = Some (did (attrs node)), handle = Some (handle (attrs node))\<rparr> \<and>
   mentionNode_tag (render (mentionNode_toDOM node)) \<and>
   textContent (render (mentionNode_toDOM node)) = js ''@'' @ handle (attrs node) \<and>
   tagNode_getAttrs (render (tagNode_toDOM tnode)) = \<lparr>tag = Some (tag (attrs tnode))\<rparr> \<and>
   tagNode_tag (render (tagNode_toDOM tnode)) \<and>
   textContent (render (tagNode_toDOM tnode)) = js ''#'' @ tag (attrs tnode)"
  by (simp add: mentionNode_getAttrs_def mentionNode_toDOM_def mentionNode_tag_def
      tagNode_getAttrs_def tagNode_toDOM_def tagNode_tag_def render_def getAttribute_def js_def)

end
